theory Spec2Isabelle
  imports Main "HOL-Library.Word" "HOL-Library.Signed_Division" "HOL-Library.Multiset"
begin

section \<open>Machine integers of monitor.c\<close>

text \<open>
  The program is C on Linux (LP64): \<open>int\<close> and \<open>uid_t\<close> have 32 bits, \<open>long\<close> and
  \<open>long long\<close> have 64. They are words here; \<open>+\<close>, \<open>-\<close> and \<open>*\<close> wrap around, which
  is what the compiled program computes where C itself leaves signed overflow open.
  Signed comparisons read a word through \<open>sint\<close>; C's \<open>/\<close> truncates towards zero,
  which is \<open>sdiv\<close> on \<open>int\<close>. The only divisor in the program is \<open>hz\<close>, which
  \<open>main\<close> makes positive before the first pass (lines 273-275); a division by zero,
  which HOL defines as 0, is no behaviour of the program.
\<close>

type_synonym cint = "32 word"
type_synonym uid_t = "32 word"
type_synonym llong = "64 word"

definition ll_div :: "llong \<Rightarrow> llong \<Rightarrow> llong" where
  "ll_div a b = word_of_int (sint a sdiv sint b)"

definition PID_MAX :: int where
  "PID_MAX = 65536"

definition MAX_USERS :: nat where
  "MAX_USERS = 4096"

section \<open>Data model\<close>

text \<open>
  \<open>PidSlot\<close>, lines 26-30. The C field \<open>active\<close> is an \<open>int\<close> that only ever holds 0
  (static initialisation) or 1 (line 206), so it is a \<open>bool\<close>.
\<close>

record PidSlot =
  active :: bool
  uid :: uid_t
  prev_jiffies :: llong

text \<open>\<open>UserEntry\<close>, lines 33-37; its \<open>uid\<close> field is \<open>user_uid\<close> here.\<close>

record UserEntry =
  user_uid :: uid_t
  cpu_ms :: llong
  name :: string

text \<open>
  The globals of lines 39-42. \<open>pid_slots\<close> is indexed by the process identifier;
  \<open>user_table\<close> holds the first \<open>user_count\<close> entries of the C array, so that
  \<open>user_count\<close> is its length.
\<close>

record monitor_state =
  pid_slots :: "int \<Rightarrow> PidSlot"
  user_table :: "UserEntry list"
  hz :: llong

definition init_state :: monitor_state where
  "init_state =
     \<lparr>pid_slots = (\<lambda>_. \<lparr>active = False, uid = 0, prev_jiffies = 0\<rparr>),
      user_table = [], hz = 0\<rparr>"

text \<open>
  One entry returned by \<open>readdir\<close>, together with what the operating system answers for
  it if asked: \<open>stat_jiffies\<close> is the value \<open>read_proc_stat\<close> returns (\<open>-1\<close> on any
  error) and \<open>st_uid\<close> the value \<open>read_proc_uid\<close> returns (\<open>(uid_t)-1\<close> on error).
\<close>

record dirent =
  d_name :: string
  stat_jiffies :: llong
  st_uid :: uid_t

section \<open>Helpers\<close>

definition digit_char :: "nat \<Rightarrow> char" where
  "digit_char n = char_of (48 + n)"

function show_nat :: "nat \<Rightarrow> string" where
  "show_nat n = (if n < 10 then [digit_char n] else show_nat (n div 10) @ [digit_char (n mod 10)])"
  by pat_completeness auto
termination
  by (relation "measure id") auto

declare show_nat.simps [simp del]

text \<open>The linear scan of lines 51-53: the index of the first entry with this uid.\<close>

fun find_index :: "uid_t \<Rightarrow> UserEntry list \<Rightarrow> nat option" where
  "find_index u [] = None"
| "find_index u (e # es) =
     (if user_uid e = u then Some 0
      else (case find_index u es of None \<Rightarrow> None | Some i \<Rightarrow> Some (Suc i)))"

text \<open>
  \<open>find_user\<close>, lines 48-69. The result is the index of the entry (\<open>None\<close> for the
  \<open>NULL\<close> of line 56) and the state, in which a new entry may have been appended.
  \<open>pw\<close> is \<open>getpwuid\<close>, the password database; \<open>snprintf\<close> into \<open>name[64]\<close> keeps 63
  characters.
\<close>

definition find_user ::
  "(uid_t \<Rightarrow> string option) \<Rightarrow> uid_t \<Rightarrow> monitor_state \<Rightarrow> nat option \<times> monitor_state" where
  "find_user pw u st =
     (case find_index u (user_table st) of
        Some i \<Rightarrow> (Some i, st)
      | None \<Rightarrow>
          if length (user_table st) \<ge> MAX_USERS then (None, st)
          else
            (Some (length (user_table st)),
             st\<lparr>user_table := user_table st @
                 [\<lparr>user_uid = u, cpu_ms = 0,
                   name = (case pw u of
                             Some pw_name \<Rightarrow> take 63 pw_name
                           | None \<Rightarrow> take 63 (show_nat (unat u)))\<rparr>]\<rparr>))"

text \<open>
  The three lines \<open>UserEntry *u = find_user(uid); if (u) u->cpu_ms += ms;\<close>, which occur
  at 219-221 and at 235-237.
\<close>

definition add_cpu_ms ::
  "(uid_t \<Rightarrow> string option) \<Rightarrow> uid_t \<Rightarrow> llong \<Rightarrow> monitor_state \<Rightarrow> monitor_state" where
  "add_cpu_ms pw u ms st =
     (case find_user pw u st of
        (None, st') \<Rightarrow> st'
      | (Some i, st') \<Rightarrow>
          st'\<lparr>user_table := (user_table st')
                 [i := (user_table st' ! i)\<lparr>cpu_ms := cpu_ms (user_table st' ! i) + ms\<rparr>]\<rparr>)"

section \<open>Sampling logic\<close>

definition isdigit :: "char \<Rightarrow> bool" where
  "isdigit c = (48 \<le> (of_char c :: nat) \<and> (of_char c :: nat) \<le> 57)"


text \<open>
  The scan of lines 179-187 over the entry's name: the loop ends at the terminating NUL
  or at the first character that is no digit; the result is \<open>(valid, pid)\<close>.
\<close>

fun scan_pid :: "string \<Rightarrow> cint \<Rightarrow> bool \<times> cint" where
  "scan_pid [] pid = (True, pid)"
| "scan_pid (c # s) pid =
     (if (of_char c :: nat) = 0 then (True, pid)
      else if \<not> isdigit c then (False, pid)
      else scan_pid s (pid * 10 + (of_nat (of_char c) - 48)))"

text \<open>
  The index with which line 199 reaches \<open>pid_slots\<close>, or \<open>None\<close> when one of the three
  \<open>continue\<close> statements of lines 188-197 skips the entry first.
\<close>

definition slot_index :: "dirent \<Rightarrow> int option" where
  "slot_index de =
     (let (valid, pid) = scan_pid (d_name de) 0 in
      if \<not> valid \<or> sint pid \<le> 0 \<or> sint pid \<ge> PID_MAX then None
      else if sint (stat_jiffies de) < 0 then None
      else if st_uid de = - 1 then None
      else Some (sint pid))"

text \<open>Lines 228-230: the difference to the recorded counter, clamped at zero.\<close>

definition clamped_delta :: "llong \<Rightarrow> llong \<Rightarrow> llong" where
  "clamped_delta jiffies prev =
     (let delta = jiffies - prev in if sint delta < 0 then 0 else delta)"

text \<open>The body of the \<open>while\<close> loop of \<open>do_sample\<close>, lines 176-239, for one entry.\<close>

definition process_entry ::
  "(uid_t \<Rightarrow> string option) \<Rightarrow> bool \<Rightarrow> monitor_state \<Rightarrow> dirent \<Rightarrow> monitor_state" where
  "process_entry pw is_baseline st de =
     (case slot_index de of
        None \<Rightarrow> st
      | Some pid \<Rightarrow>
          let jiffies = stat_jiffies de;
              u = st_uid de;
              slot = pid_slots st pid
          in
          if \<not> active slot \<or> uid slot \<noteq> u then
            (if is_baseline then
               st\<lparr>pid_slots := (pid_slots st)
                    (pid := \<lparr>active = True, uid = u, prev_jiffies = jiffies\<rparr>)\<rparr>
             else
               let ms = ll_div (jiffies * 1000) (hz st);
                   st1 = (if 0 < sint ms then add_cpu_ms pw u ms st else st)
               in st1\<lparr>pid_slots := (pid_slots st1)
                    (pid := \<lparr>active = True, uid = u, prev_jiffies = jiffies\<rparr>)\<rparr>)
          else if \<not> is_baseline then
            let delta = clamped_delta jiffies (prev_jiffies slot);
                st1 = st\<lparr>pid_slots := (pid_slots st)
                         (pid := slot\<lparr>prev_jiffies := jiffies\<rparr>)\<rparr>
            in
            if 0 < sint delta then
              add_cpu_ms pw u (ll_div (delta * 1000) (hz st)) st1
            else st1
          else st)"

text \<open>
  \<open>do_sample\<close>, lines 168-243. The listing is what \<open>readdir\<close> yields in this pass;
  \<open>None\<close> is the failure of \<open>opendir\<close> (line 171).
\<close>

definition do_sample ::
  "(uid_t \<Rightarrow> string option) \<Rightarrow> bool \<Rightarrow> monitor_state \<Rightarrow> dirent list option \<Rightarrow> monitor_state" where
  "do_sample pw is_baseline st listing =
     (case listing of
        None \<Rightarrow> st
      | Some des \<Rightarrow> foldl (process_entry pw is_baseline) st des)"

section \<open>Sorting and output\<close>

text \<open>\<open>cmp_cpu_desc\<close>, lines 249-254.\<close>

definition cmp_cpu_desc :: "UserEntry \<Rightarrow> UserEntry \<Rightarrow> int" where
  "cmp_cpu_desc a b =
     (let da = cpu_ms a; db = cpu_ms b
      in if sint db > sint da then 1 else if sint db < sint da then - 1 else 0)"

text \<open>
  The C library's \<open>qsort\<close> (line 287) is specified by its result only: the array holds the
  same elements, and no element compares greater than a later one. \<open>qsort_result\<close> is
  that specification. \<open>qsort\<close> is one function that meets it, an insertion sort, with
  which \<open>main\<close> can be run.
\<close>

definition qsort_result :: "('a \<Rightarrow> 'a \<Rightarrow> int) \<Rightarrow> 'a list \<Rightarrow> 'a list \<Rightarrow> bool" where
  "qsort_result cmp xs ys = (mset ys = mset xs \<and> sorted_wrt (\<lambda>a b. cmp a b \<le> 0) ys)"

fun qsort_insert :: "('a \<Rightarrow> 'a \<Rightarrow> int) \<Rightarrow> 'a \<Rightarrow> 'a list \<Rightarrow> 'a list" where
  "qsort_insert cmp x [] = [x]"
| "qsort_insert cmp x (y # ys) =
     (if cmp x y \<le> 0 then x # y # ys else y # qsort_insert cmp x ys)"

fun qsort :: "('a \<Rightarrow> 'a \<Rightarrow> int) \<Rightarrow> 'a list \<Rightarrow> 'a list" where
  "qsort cmp [] = []"
| "qsort cmp (x # xs) = qsort_insert cmp x (qsort cmp xs)"

text \<open>
  The printing loop of lines 292-298: one row \<open>(rank, name, cpu_ms)\<close> for each line that
  \<open>printf\<close> writes. \<open>rank\<close> counts at most \<open>MAX_USERS\<close> rows, so it is a \<open>nat\<close>.
\<close>

fun print_rows :: "nat \<Rightarrow> UserEntry list \<Rightarrow> (nat \<times> string \<times> llong) list" where
  "print_rows rank [] = []"
| "print_rows rank (u # us) =
     (if sint (cpu_ms u) \<le> 0 then print_rows rank us
      else (rank, name u, cpu_ms u) # print_rows (Suc rank) us)"

section \<open>main\<close>

text \<open>
  The C library's \<open>atoi\<close> (line 267) is \<open>(int) strtol(s, NULL, 10)\<close>: white space is
  skipped, one sign is read, and the digits that follow are the value; what comes after
  them is ignored, and a text without digits has the value 0. In glibc \<open>strtol\<close>
  saturates at the bounds of \<open>long\<close>, and the cast keeps the low 32 bits.
\<close>

definition isspace :: "char \<Rightarrow> bool" where
  "isspace c = ((of_char c :: nat) = 32 \<or> (9 \<le> (of_char c :: nat) \<and> (of_char c :: nat) \<le> 13))"

fun digits_value :: "string \<Rightarrow> int \<Rightarrow> int" where
  "digits_value [] acc = acc"
| "digits_value (c # s) acc =
     (if isdigit c then digits_value s (acc * 10 + (int (of_char c) - 48)) else acc)"

definition strtol :: "string \<Rightarrow> int" where
  "strtol s =
     (let s1 = dropWhile isspace s;
          v = (case s1 of
                 [] \<Rightarrow> 0
               | c # r \<Rightarrow>
                   if c = CHR ''-'' then - digits_value r 0
                   else if c = CHR ''+'' then digits_value r 0
                   else digits_value s1 0)
      in max (- (2 ^ 63)) (min (2 ^ 63 - 1) v))"

definition atoi :: "string \<Rightarrow> cint" where
  "atoi s = word_of_int (strtol s)"

text \<open>
  The operating system as \<open>main\<close> sees it: the password database, the value of
  \<open>sysconf(_SC_CLK_TCK)\<close>, and the listing of \<open>/proc\<close> in the k-th pass of \<open>do_sample\<close>
  (\<open>None\<close> when \<open>opendir\<close> fails).
\<close>

record os_env =
  getpwuid :: "uid_t \<Rightarrow> string option"
  sysconf_clk_tck :: llong
  proc :: "nat \<Rightarrow> dirent list option"

text \<open>
  What a run leaves behind: the exit status, the \<open>is_baseline\<close> argument of every call of
  \<open>do_sample\<close> in order, and the rows of the report.
\<close>

record run_result =
  exit_status :: int
  calls :: "bool list"
  report :: "(nat \<times> string \<times> llong) list"

definition sample_pass ::
  "os_env \<Rightarrow> bool \<Rightarrow> nat \<Rightarrow> monitor_state \<times> bool list \<Rightarrow> monitor_state \<times> bool list" where
  "sample_pass os is_baseline k sc =
     (do_sample (getpwuid os) is_baseline (fst sc) (proc os k), snd sc @ [is_baseline])"

text \<open>The loop of lines 281-284, \<open>n\<close> iterations left after \<open>i\<close> have run.\<close>

fun sample_loop ::
  "os_env \<Rightarrow> nat \<Rightarrow> nat \<Rightarrow> monitor_state \<times> bool list \<Rightarrow> monitor_state \<times> bool list" where
  "sample_loop os i 0 sc = sc"
| "sample_loop os i (Suc n) sc = sample_loop os (Suc i) n (sample_pass os False (Suc i) sc)"

text \<open>Lines 273-275.\<close>

definition clock_ticks :: "llong \<Rightarrow> llong" where
  "clock_ticks tck = (if sint tck \<le> 0 then 100 else tck)"

text \<open>
  \<open>main\<close>, lines 260-301; \<open>argv\<close> is the whole argument vector and \<open>argc\<close> its length.
  The messages on \<open>stderr\<close> and the two header lines of the report are left out.
\<close>

definition main :: "os_env \<Rightarrow> string list \<Rightarrow> run_result" where
  "main os argv =
     (if length argv \<noteq> 2 then \<lparr>exit_status = 1, calls = [], report = []\<rparr>
      else
        let duration = atoi (argv ! 1) in
        if sint duration \<le> 0 then \<lparr>exit_status = 1, calls = [], report = []\<rparr>
        else
          let st0 = init_state\<lparr>hz := clock_ticks (sysconf_clk_tck os)\<rparr>;
              sc1 = sample_pass os True 0 (st0, []);
              sc2 = sample_loop os 0 (nat (sint duration)) sc1
          in \<lparr>exit_status = 0, calls = snd sc2,
              report = print_rows 1 (qsort cmp_cpu_desc (user_table (fst sc2)))\<rparr>)"

section \<open>Runs and attribution\<close>

text \<open>
  A run of the sampling engine is the sequence of loop iterations it performs, each with
  the \<open>is_baseline\<close> flag of its pass.
\<close>

type_synonym event = "bool \<times> dirent"

definition run_events :: "(uid_t \<Rightarrow> string option) \<Rightarrow> monitor_state \<Rightarrow> event list \<Rightarrow> monitor_state" where
  "run_events pw st evs = foldl (\<lambda>s ev. process_entry pw (fst ev) s (snd ev)) st evs"

text \<open>
  The iterations of one pass of \<open>do_sample\<close>, and those of the loop of lines 281-284.
\<close>

definition pass_events :: "bool \<Rightarrow> dirent list option \<Rightarrow> event list" where
  "pass_events is_baseline listing =
     (case listing of None \<Rightarrow> [] | Some des \<Rightarrow> map (Pair is_baseline) des)"

fun loop_events :: "os_env \<Rightarrow> nat \<Rightarrow> nat \<Rightarrow> event list" where
  "loop_events os i 0 = []"
| "loop_events os i (Suc n) = pass_events False (proc os (Suc i)) @ loop_events os (Suc i) n"


text \<open>
  The accumulators that \<open>main\<close> hands to \<open>qsort\<close> (line 287) when the argument is
  accepted: the user table after the iterations of the baseline pass and of the ticks.
\<close>

definition final_table :: "os_env \<Rightarrow> string list \<Rightarrow> UserEntry list" where
  "final_table os argv =
     user_table
       (run_events (getpwuid os) (init_state\<lparr>hz := clock_ticks (sysconf_clk_tck os)\<rparr>)
          (pass_events True (proc os 0) @ loop_events os 0 (nat (sint (atoi (argv ! 1))))))"

text \<open>The accumulated milliseconds of an owner: those of its entry, 0 without one.\<close>

definition cpu_of :: "uid_t \<Rightarrow> monitor_state \<Rightarrow> llong" where
  "cpu_of u st =
     (case find_index u (user_table st) of
        None \<Rightarrow> 0
      | Some i \<Rightarrow> cpu_ms (user_table st ! i))"

text \<open>
  What a run attributes to owner \<open>u\<close> on account of process \<open>p\<close>: the growth of the
  owner's accumulator over the iterations that handle \<open>p\<close>, summed.
\<close>

fun attributed ::
  "(uid_t \<Rightarrow> string option) \<Rightarrow> int \<Rightarrow> uid_t \<Rightarrow> monitor_state \<Rightarrow> event list \<Rightarrow> llong" where
  "attributed pw p u st [] = 0"
| "attributed pw p u st (ev # evs) =
     (let st' = process_entry pw (fst ev) st (snd ev)
      in (if slot_index (snd ev) = Some p then cpu_of u st' - cpu_of u st else 0)
         + attributed pw p u st' evs)"

text \<open>
  The observations of process \<open>p\<close> in a run: flag, owner and counter of each iteration
  that reaches its slot.
\<close>

definition observations :: "int \<Rightarrow> event list \<Rightarrow> (bool \<times> uid_t \<times> llong) list" where
  "observations p evs =
     map (\<lambda>ev. (fst ev, st_uid (snd ev), stat_jiffies (snd ev)))
       (filter (\<lambda>ev. slot_index (snd ev) = Some p) evs)"

text \<open>The owners a run observes.\<close>

definition owners :: "event list \<Rightarrow> uid_t set" where
  "owners evs = st_uid ` snd ` {ev \<in> set evs. slot_index (snd ev) \<noteq> None}"

text \<open>The largest counter whose product with 1000 is a \<open>long long\<close>.\<close>

definition JIFFIES_MAX :: int where
  "JIFFIES_MAX = 9223372036854775"

text \<open>
  The sum of the conversions of the successive differences of the counters
  \<open>c, c1, c2, ...\<close>, each computed as line 234 does.
\<close>

fun per_tick_sum :: "llong \<Rightarrow> llong \<Rightarrow> llong list \<Rightarrow> llong" where
  "per_tick_sum h c [] = 0"
| "per_tick_sum h c (c' # cs) = ll_div ((c' - c) * 1000) h + per_tick_sum h c' cs"

text \<open>The user table holds each owner once, and only owners of the set \<open>U\<close>.\<close>

definition table_within :: "uid_t set \<Rightarrow> monitor_state \<Rightarrow> bool" where
  "table_within U st =
     (distinct (map user_uid (user_table st)) \<and> user_uid ` set (user_table st) \<subseteq> U)"






section \<open>Concrete inputs\<close>

text \<open>A password database without entries, and one that knows the owners 1000 and 2000.\<close>

definition no_passwd :: "uid_t \<Rightarrow> string option" where
  "no_passwd = (\<lambda>_. None)"

definition ex_passwd :: "uid_t \<Rightarrow> string option" where
  "ex_passwd = (\<lambda>u. if u = 1000 then Some ''ann'' else if u = 2000 then Some ''bob'' else None)"

text \<open>
  A state in which process 7 of owner 1000 is recorded with counter 500 and owner 1000 has
  accumulated 40 ms, at 100 ticks per second.
\<close>

definition ex_state :: monitor_state where
  "ex_state =
     \<lparr>pid_slots = (\<lambda>_. \<lparr>active = False, uid = 0, prev_jiffies = 0\<rparr>)
        (7 := \<lparr>active = True, uid = 1000, prev_jiffies = 500\<rparr>),
      user_table = [\<lparr>user_uid = 1000, cpu_ms = 40, name = ''ann''\<rparr>],
      hz = 100\<rparr>"

text \<open>The final accumulators of the specification's example: A 1500, B 0, C 3200.\<close>

definition ex_table :: "UserEntry list" where
  "ex_table =
     [\<lparr>user_uid = 1, cpu_ms = 1500, name = ''A''\<rparr>,
      \<lparr>user_uid = 2, cpu_ms = 0, name = ''B''\<rparr>,
      \<lparr>user_uid = 3, cpu_ms = 3200, name = ''C''\<rparr>]"

text \<open>An operating system with an empty process table and 100 ticks per second.\<close>

definition ex_os :: os_env where
  "ex_os = \<lparr>getpwuid = no_passwd, sysconf_clk_tck = 100, proc = (\<lambda>_. Some [])\<rparr>"

text \<open>
  An operating system on which a run of one tick ends with the accumulators of the
  specification's example: at 10000 ticks per second the processes 1, 2 and 3 of the
  owners A, B and C advance by 15000 ticks, 1 tick and 32000 ticks.
\<close>

definition abc_passwd :: "uid_t \<Rightarrow> string option" where
  "abc_passwd =
     (\<lambda>u. if u = 1 then Some ''A'' else if u = 2 then Some ''B''
          else if u = 3 then Some ''C'' else None)"

definition abc_os :: os_env where
  "abc_os =
     \<lparr>getpwuid = abc_passwd, sysconf_clk_tck = 10000,
      proc = (\<lambda>k. if k = 0
                 then Some [\<lparr>d_name = ''1'', stat_jiffies = 0, st_uid = 1\<rparr>,
                            \<lparr>d_name = ''2'', stat_jiffies = 0, st_uid = 2\<rparr>,
                            \<lparr>d_name = ''3'', stat_jiffies = 0, st_uid = 3\<rparr>]
                 else Some [\<lparr>d_name = ''1'', stat_jiffies = 15000, st_uid = 1\<rparr>,
                            \<lparr>d_name = ''2'', stat_jiffies = 1, st_uid = 2\<rparr>,
                            \<lparr>d_name = ''3'', stat_jiffies = 32000, st_uid = 3\<rparr>])\<rparr>"

text \<open>
  A state whose user table is full: each of the owners 0 to \<open>MAX_USERS - 1\<close> has an entry,
  and process 7 of owner 1000 is recorded with counter 500.
\<close>

definition full_table :: "UserEntry list" where
  "full_table = map (\<lambda>i. \<lparr>user_uid = of_nat i, cpu_ms = 0, name = ''u''\<rparr>) [0 ..< MAX_USERS]"

definition full_state :: monitor_state where
  "full_state =
     \<lparr>pid_slots = (\<lambda>_. \<lparr>active = False, uid = 0, prev_jiffies = 0\<rparr>)
        (7 := \<lparr>active = True, uid = 1000, prev_jiffies = 500\<rparr>),
      user_table = full_table,
      hz = 100\<rparr>"

section \<open>Basic facts\<close>

subsection \<open>64-bit arithmetic that stays in range\<close>

lemma sint_ll_sub:
  fixes a b :: llong
  assumes "0 \<le> sint a" "0 \<le> sint b"
  shows "sint (a - b) = sint a - sint b"
proof -
  have "sint a < 2 ^ 63" "sint b < 2 ^ 63"
    using sint_lt [of a] sint_lt [of b] by simp_all
  then have "- (2 ^ 63) \<le> sint a - sint b" "sint a - sint b < 2 ^ 63"
    using assms by simp_all
  then show ?thesis
    by (simp add: sint_word_ariths signed_take_bit_int_eq_self)
qed

lemma sint_ll_of_int:
  assumes "- (2 ^ 63) \<le> k" "k < 2 ^ 63"
  shows "sint (word_of_int k :: llong) = k"
  using assms by (simp add: sint_sbintrunc' signed_take_bit_int_eq_self)

lemma sint_ll_mult_1000:
  fixes d :: llong
  assumes "0 \<le> sint d" "sint d \<le> 9223372036854775"
  shows "sint (d * 1000) = sint d * 1000"
  using assms by (simp add: sint_word_ariths signed_take_bit_int_eq_self)

lemma clamped_delta_neg:
  assumes "0 \<le> sint j" "sint j < sint p"
  shows "clamped_delta j p = 0"
  using assms by (simp add: clamped_delta_def Let_def sint_ll_sub)


lemma slot_index_SomeD:
  assumes "slot_index de = Some p"
  shows "1 \<le> p" "p < PID_MAX" "0 \<le> sint (stat_jiffies de)" "st_uid de \<noteq> - 1"
    "fst (scan_pid (d_name de) 0)" "p = sint (snd (scan_pid (d_name de) 0))"
  using assms by (auto simp: slot_index_def Let_def split: prod.splits if_splits)

subsection \<open>The user table\<close>

lemma find_index_None_iff: "find_index u es = None \<longleftrightarrow> u \<notin> user_uid ` set es"
  by (induction es) (auto split: option.splits)

lemma find_index_SomeD:
  "find_index u es = Some i \<Longrightarrow> i < length es \<and> user_uid (es ! i) = u"
  by (induction es arbitrary: i) (auto split: option.splits if_splits)

lemma find_index_append_Some:
  "find_index u es = Some i \<Longrightarrow> find_index u (es @ fs) = Some i"
  by (induction es arbitrary: i) (auto split: option.splits if_splits)

lemma find_index_append_None:
  "find_index u es = None \<Longrightarrow>
   find_index u (es @ fs) = (case find_index u fs of None \<Rightarrow> None | Some i \<Rightarrow> Some (length es + i))"
  by (induction es) (auto split: option.splits if_splits)

lemma find_index_update:
  "user_uid e = user_uid (es ! i) \<Longrightarrow> i < length es \<Longrightarrow>
   find_index u (es[i := e]) = find_index u es"
proof (induction es arbitrary: i)
  case Nil
  then show ?case by simp
next
  case (Cons a es)
  then show ?case by (cases i) auto
qed

lemma add_cpu_ms_slots [simp]: "pid_slots (add_cpu_ms pw u ms st) = pid_slots st"
  by (simp add: add_cpu_ms_def find_user_def split: option.splits)

lemma add_cpu_ms_hz [simp]: "hz (add_cpu_ms pw u ms st) = hz st"
  by (simp add: add_cpu_ms_def find_user_def split: option.splits)

lemma add_cpu_ms_full:
  assumes "find_index u (user_table st) = None" "MAX_USERS \<le> length (user_table st)"
  shows "add_cpu_ms pw u ms st = st"
  using assms by (simp add: add_cpu_ms_def find_user_def)

lemma cpu_of_add_same:
  assumes "find_index u (user_table st) \<noteq> None \<or> length (user_table st) < MAX_USERS"
  shows "cpu_of u (add_cpu_ms pw u ms st) = cpu_of u st + ms"
proof (cases "find_index u (user_table st)")
  case None
  with assms have room: "\<not> MAX_USERS \<le> length (user_table st)" by simp
  show ?thesis
    using None room
    by (simp add: add_cpu_ms_def find_user_def cpu_of_def find_index_append_None)
next
  case (Some i)
  then have i: "i < length (user_table st)" "user_uid (user_table st ! i) = u"
    by (simp_all add: find_index_SomeD)
  show ?thesis
    using Some i
    by (simp add: add_cpu_ms_def find_user_def cpu_of_def find_index_update)
qed

lemma cpu_of_add_other:
  assumes "v \<noteq> u"
  shows "cpu_of v (add_cpu_ms pw u ms st) = cpu_of v st"
proof (cases "find_index u (user_table st)")
  case None
  show ?thesis
  proof (cases "find_index v (user_table st)")
    case vNone: None
    with None assms show ?thesis
      by (simp add: add_cpu_ms_def find_user_def cpu_of_def find_index_append_None)
  next
    case (Some j)
    then have "j < length (user_table st)" by (simp add: find_index_SomeD)
    with None Some assms show ?thesis
      by (simp add: add_cpu_ms_def find_user_def cpu_of_def find_index_append_Some
          nth_append)
  qed
next
  case (Some i)
  then have i: "i < length (user_table st)" "user_uid (user_table st ! i) = u"
    by (simp_all add: find_index_SomeD)
  show ?thesis
  proof (cases "find_index v (user_table st)")
    case None
    with Some i show ?thesis
      by (simp add: add_cpu_ms_def find_user_def cpu_of_def find_index_update)
  next
    case vSome: (Some j)
    then have "user_uid (user_table st ! j) = v" by (simp add: find_index_SomeD)
    with i assms have "j \<noteq> i" by auto
    with Some vSome i show ?thesis
      by (simp add: add_cpu_ms_def find_user_def cpu_of_def find_index_update)
  qed
qed

lemma process_entry_skip: "slot_index de = None \<Longrightarrow> process_entry pw b st de = st"
  by (simp add: process_entry_def)

lemma process_entry_hz [simp]: "hz (process_entry pw b st de) = hz st"
  by (simp add: process_entry_def Let_def split: option.splits)

lemma process_entry_other_slot:
  assumes "slot_index de \<noteq> Some p"
  shows "pid_slots (process_entry pw b st de) p = pid_slots st p"
  using assms by (simp add: process_entry_def Let_def split: option.splits)

lemma known_regress_step:
  assumes "slot_index de = Some p"
    and "active (pid_slots st p)" and "uid (pid_slots st p) = st_uid de"
    and "sint (stat_jiffies de) < sint (prev_jiffies (pid_slots st p))"
  shows "process_entry pw False st de =
           st\<lparr>pid_slots := (pid_slots st)(p := (pid_slots st p)\<lparr>prev_jiffies := stat_jiffies de\<rparr>)\<rparr>"
  using assms slot_index_SomeD(3) [OF assms(1)]
  by (simp add: process_entry_def Let_def clamped_delta_neg)

lemma known_baseline_step:
  assumes "slot_index de = Some p"
    and "active (pid_slots st p)" and "uid (pid_slots st p) = st_uid de"
  shows "process_entry pw True st de = st"
  using assms by (simp add: process_entry_def Let_def)

subsection \<open>Claims about one loop iteration\<close>

text \<open>
  C6. On a tick that is not the baseline, an entry whose slot is active with the same
  owner and whose counter is below the recorded one has a clamped delta of exactly zero
  (not a negative one): no accumulator changes, and the slot records the observed
  counter.
\<close>

theorem C6_negative_delta_guard:
  assumes "slot_index de = Some p"
    and "active (pid_slots st p)" and "uid (pid_slots st p) = st_uid de"
    and "sint (stat_jiffies de) < sint (prev_jiffies (pid_slots st p))"
  shows "clamped_delta (stat_jiffies de) (prev_jiffies (pid_slots st p)) = 0 \<and>
         user_table (process_entry pw False st de) = user_table st \<and>
         pid_slots (process_entry pw False st de) p =
           \<lparr>active = True, uid = st_uid de, prev_jiffies = stat_jiffies de\<rparr>"
proof -
  have "0 \<le> sint (stat_jiffies de)"
    using assms(1) by (rule slot_index_SomeD)
  then have "clamped_delta (stat_jiffies de) (prev_jiffies (pid_slots st p)) = 0"
    using assms(4) by (rule clamped_delta_neg)
  moreover have "(pid_slots st p)\<lparr>prev_jiffies := stat_jiffies de\<rparr> =
      \<lparr>active = True, uid = st_uid de, prev_jiffies = stat_jiffies de\<rparr>"
    using assms(2,3) by (cases "pid_slots st p") simp
  ultimately show ?thesis
    by (simp add: known_regress_step [OF assms])
qed

lemma slot_index_7 [simp]: "slot_index \<lparr>d_name = ''7'', stat_jiffies = 300, st_uid = 1000\<rparr> = Some 7"
  by (simp add: slot_index_def isdigit_def PID_MAX_def)

theorem C6_witness:
  "clamped_delta 300 500 = 0 \<and>
   user_table (process_entry no_passwd False ex_state
     \<lparr>d_name = ''7'', stat_jiffies = 300, st_uid = 1000\<rparr>) = user_table ex_state \<and>
   pid_slots (process_entry no_passwd False ex_state
     \<lparr>d_name = ''7'', stat_jiffies = 300, st_uid = 1000\<rparr>) 7 =
     \<lparr>active = True, uid = 1000, prev_jiffies = 300\<rparr>"
  using C6_negative_delta_guard [of "\<lparr>d_name = ''7'', stat_jiffies = 300, st_uid = 1000\<rparr>" 7
      ex_state no_passwd]
  by (simp add: ex_state_def)


lemma add_cpu_ms_table_cong:
  "user_table st1 = user_table st2 \<Longrightarrow>
   user_table (add_cpu_ms pw u ms st1) = user_table (add_cpu_ms pw u ms st2)"
  by (simp add: add_cpu_ms_def find_user_def split: option.splits)

lemma cpu_of_cong: "user_table st1 = user_table st2 \<Longrightarrow> cpu_of u st1 = cpu_of u st2"
  by (simp add: cpu_of_def split: option.splits)

lemma known_tick_table:
  assumes "slot_index de = Some p"
    and "active (pid_slots st p)" and "uid (pid_slots st p) = st_uid de"
  shows "user_table (process_entry pw False st de) =
         (let delta = clamped_delta (stat_jiffies de) (prev_jiffies (pid_slots st p))
          in if 0 < sint delta
             then user_table (add_cpu_ms pw (st_uid de) (ll_div (delta * 1000) (hz st)) st)
             else user_table st)"
  using assms
  by (auto simp: process_entry_def Let_def intro!: add_cpu_ms_table_cong)

text \<open>
  C5 as stated fails: a baseline pass that meets an active record of the same owner
  leaves its counter as it was.
\<close>

theorem C5_counterexample:
  "slot_index \<lparr>d_name = ''7'', stat_jiffies = 900, st_uid = 1000\<rparr> = Some 7 \<and>
   active (pid_slots ex_state 7) \<and>
   uid (pid_slots ex_state 7) = st_uid \<lparr>d_name = ''7'', stat_jiffies = 900, st_uid = 1000\<rparr> \<and>
   prev_jiffies (pid_slots (process_entry no_passwd True ex_state
       \<lparr>d_name = ''7'', stat_jiffies = 900, st_uid = 1000\<rparr>) 7) = 500 \<and>
   prev_jiffies (pid_slots (process_entry no_passwd True ex_state
       \<lparr>d_name = ''7'', stat_jiffies = 900, st_uid = 1000\<rparr>) 7) \<noteq>
     stat_jiffies \<lparr>d_name = ''7'', stat_jiffies = 900, st_uid = 1000\<rparr>"
  by (simp add: process_entry_def slot_index_def isdigit_def PID_MAX_def ex_state_def)

text \<open>
  C5, amended. On a baseline pass an entry whose slot is active with the same owner
  changes nothing at all: nothing is attributed, and the record keeps the counter it had.
\<close>

theorem C5_known_on_baseline:
  assumes "slot_index de = Some p"
    and "active (pid_slots st p)" and "uid (pid_slots st p) = st_uid de"
  shows "process_entry pw True st de = st"
  using assms by (rule known_baseline_step)

theorem C5_witness:
  "process_entry no_passwd True ex_state \<lparr>d_name = ''7'', stat_jiffies = 900, st_uid = 1000\<rparr>
     = ex_state"
  using C5_known_on_baseline [of "\<lparr>d_name = ''7'', stat_jiffies = 900, st_uid = 1000\<rparr>" 7
      ex_state no_passwd]
  by (simp add: slot_index_def isdigit_def PID_MAX_def ex_state_def)



text \<open>
  C10. When an identifier is observed again with the owner its active record has and
  with a counter below the recorded one, the tick attributes nothing: no accumulator
  changes, so the owner does not receive the conversion of the full counter. With an
  active record of the same owner, what a tick charges is always the conversion of the
  clamped delta.
\<close>

theorem C10_same_owner_reuse:
  assumes "slot_index de = Some p"
    and "active (pid_slots st p)" and "uid (pid_slots st p) = st_uid de"
  shows "(sint (stat_jiffies de) < sint (prev_jiffies (pid_slots st p)) \<longrightarrow>
            user_table (process_entry pw False st de) = user_table st \<and>
            (\<forall>u. cpu_of u (process_entry pw False st de) = cpu_of u st) \<and>
            (ll_div (stat_jiffies de * 1000) (hz st) \<noteq> 0 \<longrightarrow>
               cpu_of (st_uid de) (process_entry pw False st de) \<noteq>
               cpu_of (st_uid de) st + ll_div (stat_jiffies de * 1000) (hz st))) \<and>
         user_table (process_entry pw False st de) =
           (let delta = clamped_delta (stat_jiffies de) (prev_jiffies (pid_slots st p))
            in if 0 < sint delta
               then user_table (add_cpu_ms pw (st_uid de) (ll_div (delta * 1000) (hz st)) st)
               else user_table st)"
proof -
  let ?st' = "process_entry pw False st de"
  let ?full = "ll_div (stat_jiffies de * 1000) (hz st)"
  have regress: "user_table ?st' = user_table st \<and>
      (\<forall>u. cpu_of u ?st' = cpu_of u st) \<and>
      (?full \<noteq> 0 \<longrightarrow> cpu_of (st_uid de) ?st' \<noteq> cpu_of (st_uid de) st + ?full)"
    if less: "sint (stat_jiffies de) < sint (prev_jiffies (pid_slots st p))"
  proof -
    have tab: "user_table ?st' = user_table st"
      using known_regress_step [OF assms less, of pw] by simp
    then have same: "cpu_of u ?st' = cpu_of u st" for u
      by (rule cpu_of_cong)
    show ?thesis
      using tab same by simp
  qed
  show ?thesis
    using regress known_tick_table [OF assms, of pw] by blast
qed

theorem C10_witness:
  "user_table (process_entry no_passwd False ex_state
      \<lparr>d_name = ''7'', stat_jiffies = 300, st_uid = 1000\<rparr>) = user_table ex_state \<and>
   cpu_of 1000 (process_entry no_passwd False ex_state
      \<lparr>d_name = ''7'', stat_jiffies = 300, st_uid = 1000\<rparr>) = 40 \<and>
   ll_div (300 * 1000) (hz ex_state) = 3000"
proof -
  have h: "sint (stat_jiffies \<lparr>d_name = ''7'', stat_jiffies = 300, st_uid = 1000\<rparr>)
      < sint (prev_jiffies (pid_slots ex_state 7))"
    by (simp add: ex_state_def)
  have m: "ll_div (300 * 1000) (hz ex_state) = 3000"
    by (simp add: ll_div_def ex_state_def signed_divide_int_def)
  have c: "cpu_of 1000 ex_state = 40"
    by (simp add: cpu_of_def ex_state_def)
  show ?thesis
    using h m c
      C10_same_owner_reuse [of "\<lparr>d_name = ''7'', stat_jiffies = 300, st_uid = 1000\<rparr>" 7
        ex_state no_passwd]
    by (simp add: ex_state_def)
qed

subsection \<open>The report\<close>

lemma cmp_cpu_desc_le: "cmp_cpu_desc a b \<le> 0 \<longleftrightarrow> sint (cpu_ms b) \<le> sint (cpu_ms a)"
  by (simp add: cmp_cpu_desc_def Let_def)

lemma mset_qsort_insert: "mset (qsort_insert cmp x ys) = add_mset x (mset ys)"
  by (induction ys) auto

lemma mset_qsort: "mset (qsort cmp xs) = mset xs"
  by (induction xs) (auto simp: mset_qsort_insert)

lemma set_qsort_insert: "set (qsort_insert cmp x ys) = insert x (set ys)"
  by (induction ys) auto

lemma sorted_qsort_insert:
  "sorted_wrt (\<lambda>a b. cmp_cpu_desc a b \<le> 0) ys \<Longrightarrow>
   sorted_wrt (\<lambda>a b. cmp_cpu_desc a b \<le> 0) (qsort_insert cmp_cpu_desc x ys)"
  by (induction ys) (auto simp: set_qsort_insert cmp_cpu_desc_le)

lemma sorted_qsort: "sorted_wrt (\<lambda>a b. cmp_cpu_desc a b \<le> 0) (qsort cmp_cpu_desc xs)"
  by (induction xs) (auto simp: sorted_qsort_insert)

lemma qsort_meets_spec: "qsort_result cmp_cpu_desc xs (qsort cmp_cpu_desc xs)"
  by (simp add: qsort_result_def mset_qsort sorted_qsort)

lemma print_rows_entries:
  "map snd (print_rows r ys) =
     map (\<lambda>u. (name u, cpu_ms u)) (filter (\<lambda>u. 0 < sint (cpu_ms u)) ys)"
  by (induction ys arbitrary: r) auto

lemma print_rows_ranks: "map fst (print_rows r ys) = [r ..< r + length (print_rows r ys)]"
proof (induction ys arbitrary: r)
  case Nil
  then show ?case by simp
next
  case (Cons u us)
  show ?case
  proof (cases "sint (cpu_ms u) \<le> 0")
    case True
    then show ?thesis using Cons [of r] by simp
  next
    case False
    have "r < r + Suc (length (print_rows (Suc r) us))"
      by simp
    then have "[r ..< r + Suc (length (print_rows (Suc r) us))] =
        r # [Suc r ..< r + Suc (length (print_rows (Suc r) us))]"
      by (rule upt_conv_Cons)
    then have "[r ..< r + Suc (length (print_rows (Suc r) us))] =
        r # [Suc r ..< Suc r + length (print_rows (Suc r) us)]"
      by simp
    with False show ?thesis using Cons [of "Suc r"] by simp
  qed
qed

text \<open>
  The rows that the printing loop writes for a table that \<open>qsort\<close> has left in order.
\<close>

lemma print_rows_of_sorted:
  assumes "qsort_result cmp_cpu_desc tab ys"
  shows "mset (map snd (print_rows 1 ys)) =
           image_mset (\<lambda>u. (name u, cpu_ms u)) (filter_mset (\<lambda>u. 0 < sint (cpu_ms u)) (mset tab)) \<and>
         sorted_wrt (\<lambda>a b. sint b \<le> sint a) (map (\<lambda>row. snd (snd row)) (print_rows 1 ys)) \<and>
         map fst (print_rows 1 ys) = [1 ..< Suc (length (print_rows 1 ys))]"
proof -
  let ?pos = "\<lambda>u. 0 < sint (cpu_ms u)"
  have perm: "mset ys = mset tab"
    and ord: "sorted_wrt (\<lambda>a b. cmp_cpu_desc a b \<le> 0) ys"
    using assms by (simp_all add: qsort_result_def)
  have "mset (map snd (print_rows 1 ys)) = image_mset (\<lambda>u. (name u, cpu_ms u)) (mset (filter ?pos ys))"
    by (simp add: print_rows_entries)
  also have "mset (filter ?pos ys) = filter_mset ?pos (mset tab)"
    using perm by simp
  finally have rows: "mset (map snd (print_rows 1 ys)) =
      image_mset (\<lambda>u. (name u, cpu_ms u)) (filter_mset ?pos (mset tab))" .
  have "sorted_wrt (\<lambda>a b. sint (cpu_ms b) \<le> sint (cpu_ms a)) ys"
    using ord by (simp add: cmp_cpu_desc_le)
  then have "sorted_wrt (\<lambda>a b. sint (cpu_ms b) \<le> sint (cpu_ms a)) (filter ?pos ys)"
    by (rule sorted_wrt_filter)
  then have "sorted_wrt (\<lambda>a b. sint b \<le> sint a) (map cpu_ms (filter ?pos ys))"
    by (simp add: sorted_wrt_map)
  moreover have "map (\<lambda>row. snd (snd row)) (print_rows 1 ys) = map cpu_ms (filter ?pos ys)"
  proof -
    have "map (\<lambda>row. snd (snd row)) (print_rows 1 ys) = map snd (map snd (print_rows 1 ys))"
      by simp
    then show ?thesis
      by (simp add: print_rows_entries comp_def)
  qed
  ultimately have desc: "sorted_wrt (\<lambda>a b. sint b \<le> sint a)
      (map (\<lambda>row. snd (snd row)) (print_rows 1 ys))"
    by simp
  have "map fst (print_rows 1 ys) = [1 ..< Suc (length (print_rows 1 ys))]"
    using print_rows_ranks [of 1 ys] by simp
  with rows desc show ?thesis by simp
qed

lemma qsort_ex_table:
  "qsort cmp_cpu_desc ex_table =
     [\<lparr>user_uid = 3, cpu_ms = 3200, name = ''C''\<rparr>,
      \<lparr>user_uid = 1, cpu_ms = 1500, name = ''A''\<rparr>,
      \<lparr>user_uid = 2, cpu_ms = 0, name = ''B''\<rparr>]"
  by (simp add: ex_table_def cmp_cpu_desc_def)

lemma print_ex_table:
  "print_rows 1 (qsort cmp_cpu_desc ex_table) = [(1, ''C'', 3200), (2, ''A'', 1500)]"
  by (simp add: qsort_ex_table)

subsection \<open>Start-up\<close>

lemma sample_loop_calls: "snd (sample_loop os i n sc) = snd sc @ replicate n False"
proof (induction n arbitrary: i sc)
  case 0
  then show ?case by simp
next
  case (Suc n)
  show ?case
    by (simp add: Suc sample_pass_def replicate_app_Cons_same)
qed

lemma digits_value_foldl:
  "list_all isdigit s \<Longrightarrow>
   digits_value s v = foldl (\<lambda>v c. v * 10 + (int (of_char c) - 48)) v s"
  by (induction s arbitrary: v) auto

lemma isdigit_not_isspace: "isdigit c \<Longrightarrow> \<not> isspace c"
  by (auto simp: isdigit_def isspace_def)

lemma isdigit_not_sign: "isdigit c \<Longrightarrow> c \<noteq> CHR ''-'' \<and> c \<noteq> CHR ''+''"
  by (auto simp: isdigit_def)

lemma strtol_digits:
  assumes "list_all isdigit s"
  shows "strtol s = max (- (2 ^ 63)) (min (2 ^ 63 - 1) (digits_value s 0))"
proof (cases s)
  case Nil
  then show ?thesis by (simp add: strtol_def)
next
  case (Cons c r)
  with assms have "isdigit c" by simp
  then show ?thesis
    using Cons isdigit_not_isspace [of c] isdigit_not_sign [of c]
    by (simp add: strtol_def)
qed

lemma atoi_digits:
  assumes "list_all isdigit s" "0 \<le> digits_value s 0" "digits_value s 0 < 2 ^ 31"
  shows "sint (atoi s) = digits_value s 0"
proof -
  have "strtol s = digits_value s 0"
    using assms by (simp add: strtol_digits)
  then show ?thesis
    using assms(2,3)
    by (simp add: atoi_def sint_sbintrunc' signed_take_bit_int_eq_self)
qed

lemma atoi_no_number:
  assumes "s = [] \<or> (\<not> isspace (hd s) \<and> \<not> isdigit (hd s) \<and> hd s \<noteq> CHR ''-'' \<and> hd s \<noteq> CHR ''+'')"
  shows "atoi s = 0"
  using assms by (cases s) (auto simp: atoi_def strtol_def)

text \<open>
  What \<open>main\<close> does with its arguments: without exactly one argument, or with one of
  which \<open>atoi\<close> is not positive, it exits with status 1 and without a sampling pass;
  otherwise it exits with status 0 after the baseline pass and \<open>atoi\<close> many ticks. An
  argument of decimal digits with a value from 1 to 2147483647 has that value.
\<close>

lemma main_usage:
  "(length argv \<noteq> 2 \<or> sint (atoi (argv ! 1)) \<le> 0 \<longrightarrow>
      exit_status (main os argv) = 1 \<and> calls (main os argv) = [] \<and> report (main os argv) = []) \<and>
   (length argv = 2 \<and> 0 < sint (atoi (argv ! 1)) \<longrightarrow>
      exit_status (main os argv) = 0 \<and>
      calls (main os argv) = True # replicate (nat (sint (atoi (argv ! 1)))) False)"
proof -
  have usage: "exit_status (main os argv) = 1 \<and> calls (main os argv) = [] \<and>
      report (main os argv) = []"
    if "length argv \<noteq> 2 \<or> sint (atoi (argv ! 1)) \<le> 0"
    using that by (auto simp: main_def Let_def)
  have runs: "exit_status (main os argv) = 0 \<and>
      calls (main os argv) = True # replicate (nat (sint (atoi (argv ! 1)))) False"
    if "length argv = 2 \<and> 0 < sint (atoi (argv ! 1))"
    using that by (simp add: main_def Let_def sample_loop_calls sample_pass_def)
  show ?thesis
    using usage runs by blast
qed

lemma atoi_decimal:
  assumes "list_all isdigit s"
    and "0 < foldl (\<lambda>v c. v * 10 + (int (of_char c) - 48)) 0 s"
    and "foldl (\<lambda>v c. v * 10 + (int (of_char c) - 48)) 0 s \<le> 2147483647"
  shows "sint (atoi s) = foldl (\<lambda>v c. v * 10 + (int (of_char c) - 48)) 0 s"
  using assms atoi_digits [of s] by (simp add: digits_value_foldl)

text \<open>
  C8. The program does not reject every argument that is no positive integer, and it
  does not accept every positive integer. For \<open>5abc\<close> it exits with status 0 after the
  baseline pass and five sampling ticks. For \<open>-4294967295\<close> it exits with status 0 after
  the baseline pass and one tick. The positive integer \<open>4294967296\<close> it rejects with
  status 1 and without a pass.
\<close>

theorem C8_failing_input:
  "\<not> list_all isdigit ''5abc'' \<and>
   exit_status (main ex_os [''./monitor.exe'', ''5abc'']) = 0 \<and>
   calls (main ex_os [''./monitor.exe'', ''5abc'']) = [True, False, False, False, False, False] \<and>
   exit_status (main ex_os [''./monitor.exe'', ''-4294967295'']) = 0 \<and>
   calls (main ex_os [''./monitor.exe'', ''-4294967295'']) = [True, False] \<and>
   list_all isdigit ''4294967296'' \<and>
   exit_status (main ex_os [''./monitor.exe'', ''4294967296'']) = 1 \<and>
   calls (main ex_os [''./monitor.exe'', ''4294967296'']) = []"
proof -
  have a: "atoi ''5abc'' = 5"
    by (simp add: atoi_def strtol_def isspace_def isdigit_def)
  have b: "atoi ''4294967296'' = 0"
    by (simp add: atoi_def strtol_def isspace_def isdigit_def)
  have c: "atoi ''-4294967295'' = 1"
    by (simp add: atoi_def strtol_def isspace_def isdigit_def)
  have n: "replicate 5 False = [False, False, False, False, False]"
    by (simp add: numeral_eq_Suc)
  show ?thesis
    using a b c n
    by (simp add: main_def Let_def sample_loop_calls sample_pass_def isdigit_def)
qed

subsection \<open>Conversion to milliseconds\<close>

lemma sdiv_nonneg_pos:
  fixes a b :: int
  assumes "0 \<le> a" "0 < b"
  shows "a sdiv b = a div b"
  using assms by (cases "a = 0") (simp_all add: signed_divide_int_def)

lemma ll_div_exact:
  assumes "0 \<le> sint d" "sint d \<le> JIFFIES_MAX" "0 < sint h"
  shows "sint (ll_div (d * 1000) h) = sint d * 1000 div sint h"
proof -
  have m: "sint (d * 1000) = sint d * 1000"
    using assms(1,2) by (simp add: sint_ll_mult_1000 JIFFIES_MAX_def)
  have q0: "0 \<le> sint d * 1000 div sint h"
    using assms(1,3) by (simp add: pos_imp_zdiv_nonneg_iff)
  have "sint d * 1000 div sint h \<le> sint d * 1000"
    using assms(1,3) int_div_le_self [of "sint d * 1000" "sint h"]
    by (cases "sint d = 0") simp_all
  then have q1: "sint d * 1000 div sint h < 2 ^ 63"
    using assms(2) by (simp add: JIFFIES_MAX_def)
  have "ll_div (d * 1000) h = word_of_int (sint d * 1000 div sint h)"
    using assms(1,3) by (simp add: ll_div_def m sdiv_nonneg_pos)
  then show ?thesis
    using q0 q1 by (simp add: sint_ll_of_int)
qed

lemma ll_div_nonneg:
  assumes "0 \<le> sint d" "sint d \<le> JIFFIES_MAX" "0 < sint h"
  shows "0 \<le> sint (ll_div (d * 1000) h)"
  using assms by (simp add: ll_div_exact pos_imp_zdiv_nonneg_iff)

lemma sint_zero_iff: "sint (w :: llong) = 0 \<longleftrightarrow> w = 0"
proof
  assume z: "sint w = 0"
  have "w = word_of_int (sint w)" by simp
  with z show "w = 0" by simp
next
  assume "w = 0"
  then show "sint w = 0" by simp
qed

subsection \<open>First observation on a tick\<close>

lemma new_tick_step:
  assumes "slot_index de = Some p"
    and "\<not> active (pid_slots st p) \<or> uid (pid_slots st p) \<noteq> st_uid de"
  shows "process_entry pw False st de =
     (let ms = ll_div (stat_jiffies de * 1000) (hz st);
          st1 = (if 0 < sint ms then add_cpu_ms pw (st_uid de) ms st else st)
      in st1\<lparr>pid_slots := (pid_slots st)
           (p := \<lparr>active = True, uid = st_uid de, prev_jiffies = stat_jiffies de\<rparr>)\<rparr>)"
  using assms by (auto simp: process_entry_def Let_def)

lemma cpu_of_slots_update [simp]: "cpu_of u (st\<lparr>pid_slots := f\<rparr>) = cpu_of u st"
  by (simp add: cpu_of_def cong: option.case_cong)

lemma process_entry_cpu_of_other:
  assumes "u \<noteq> st_uid de"
  shows "cpu_of u (process_entry pw b st de) = cpu_of u st"
  using assms
  by (auto simp: process_entry_def Let_def cpu_of_add_other split: option.splits)

lemma new_tick_cpu_of:
  assumes "slot_index de = Some p"
    and "\<not> active (pid_slots st p) \<or> uid (pid_slots st p) \<noteq> st_uid de"
    and "find_index (st_uid de) (user_table st) \<noteq> None \<or> length (user_table st) < MAX_USERS"
    and "0 < sint (hz st)" and "sint (stat_jiffies de) \<le> JIFFIES_MAX"
  shows "cpu_of (st_uid de) (process_entry pw False st de) =
         cpu_of (st_uid de) st + ll_div (stat_jiffies de * 1000) (hz st)"
proof -
  let ?ms = "ll_div (stat_jiffies de * 1000) (hz st)"
  have j: "0 \<le> sint (stat_jiffies de)"
    using assms(1) by (rule slot_index_SomeD)
  have nonneg: "0 \<le> sint ?ms"
    using j assms(5,4) by (rule ll_div_nonneg)
  show ?thesis
  proof (cases "0 < sint ?ms")
    case True
    then show ?thesis
      using assms(3) by (simp add: new_tick_step [OF assms(1,2)] Let_def cpu_of_add_same)
  next
    case False
    with nonneg have "sint ?ms = 0" by simp
    then have "?ms = 0" by (simp add: sint_zero_iff)
    then show ?thesis
      by (simp add: new_tick_step [OF assms(1,2)] Let_def)
  qed
qed

lemma full_table_length: "length full_table = MAX_USERS"
  by (simp add: full_table_def)

lemma full_table_uids: "u \<in> user_uid ` set full_table \<Longrightarrow> unat u < 4096"
proof -
  assume "u \<in> user_uid ` set full_table"
  then obtain i :: nat where i: "i < MAX_USERS" "u = of_nat i"
    by (auto simp: full_table_def)
  then have "i < 4096"
    by (simp add: MAX_USERS_def)
  with i(2) have "unat u = i"
    by (simp add: unat_of_nat)
  with \<open>i < 4096\<close> show ?thesis by simp
qed

lemma find_index_full_5000: "find_index 5000 full_table = None"
proof -
  have "(5000 :: uid_t) \<notin> user_uid ` set full_table"
    using full_table_uids [of 5000] by auto
  then show ?thesis by (simp add: find_index_None_iff)
qed

lemma add_cpu_ms_full_state: "add_cpu_ms pw 5000 ms full_state = full_state"
  by (rule add_cpu_ms_full) (simp_all add: full_state_def find_index_full_5000 full_table_length)

lemma cpu_of_full_state: "cpu_of 5000 full_state = 0"
  by (simp add: cpu_of_def full_state_def find_index_full_5000)

text \<open>
  C2 as stated fails in two cases. When the new owner has no accumulator and the user
  table is full, the tick attributes nothing to the new owner. And when the product of
  the new counter with 1000 is no \<open>long long\<close>, it wraps around to a negative number,
  and again nothing is attributed.
\<close>

theorem C2_counterexample:
  "pid_slots full_state 7 = \<lparr>active = True, uid = 1000, prev_jiffies = 500\<rparr> \<and>
   slot_index \<lparr>d_name = ''7'', stat_jiffies = 300, st_uid = 5000\<rparr> = Some 7 \<and>
   sint (300 :: llong) * 1000 div sint (hz full_state) = 3000 \<and>
   cpu_of 5000 full_state = 0 \<and>
   cpu_of 5000 (process_entry no_passwd False full_state
      \<lparr>d_name = ''7'', stat_jiffies = 300, st_uid = 5000\<rparr>) = 0 \<and>
   cpu_of 2000 (ex_state\<lparr>pid_slots := (pid_slots ex_state)
      (7 := \<lparr>active = True, uid = 1000, prev_jiffies = 9223372036854775807\<rparr>)\<rparr>) = 0 \<and>
   cpu_of 2000 (process_entry ex_passwd False
      (ex_state\<lparr>pid_slots := (pid_slots ex_state)
         (7 := \<lparr>active = True, uid = 1000, prev_jiffies = 9223372036854775807\<rparr>)\<rparr>)
      \<lparr>d_name = ''7'', stat_jiffies = 9223372036854776, st_uid = 2000\<rparr>) = 0 \<and>
   sint (9223372036854776 :: llong) * 1000 div sint (hz ex_state) = 92233720368547760"
proof -
  have idx: "slot_index \<lparr>d_name = ''7'', stat_jiffies = 300, st_uid = 5000\<rparr> = Some 7"
    by (simp add: slot_index_def isdigit_def PID_MAX_def)
  have new: "\<not> active (pid_slots full_state 7) \<or> uid (pid_slots full_state 7) \<noteq>
      st_uid \<lparr>d_name = ''7'', stat_jiffies = 300, st_uid = 5000\<rparr>"
    by (simp add: full_state_def)
  have full: "cpu_of 5000 (process_entry no_passwd False full_state
      \<lparr>d_name = ''7'', stat_jiffies = 300, st_uid = 5000\<rparr>) = 0"
    by (simp add: new_tick_step [OF idx new] Let_def add_cpu_ms_full_state cpu_of_full_state)
  have slot: "pid_slots full_state 7 = \<lparr>active = True, uid = 1000, prev_jiffies = 500\<rparr>"
      "sint (300 :: llong) * 1000 div sint (hz full_state) = 3000"
    by (simp_all add: full_state_def)
  have wrap: "cpu_of 2000 (ex_state\<lparr>pid_slots := (pid_slots ex_state)
      (7 := \<lparr>active = True, uid = 1000, prev_jiffies = 9223372036854775807\<rparr>)\<rparr>) = 0 \<and>
   cpu_of 2000 (process_entry ex_passwd False
      (ex_state\<lparr>pid_slots := (pid_slots ex_state)
         (7 := \<lparr>active = True, uid = 1000, prev_jiffies = 9223372036854775807\<rparr>)\<rparr>)
      \<lparr>d_name = ''7'', stat_jiffies = 9223372036854776, st_uid = 2000\<rparr>) = 0 \<and>
   sint (9223372036854776 :: llong) * 1000 div sint (hz ex_state) = 92233720368547760"
    by (simp add: process_entry_def slot_index_def isdigit_def PID_MAX_def ex_state_def
        ll_div_def signed_divide_int_def cpu_of_def Let_def)
  show ?thesis
    using idx full slot cpu_of_full_state wrap by simp
qed

text \<open>
  C2, amended. Let the record of identifier \<open>p\<close> be active with owner \<open>A\<close> and counter
  \<open>c0\<close>, and let a tick that is not the baseline observe \<open>p\<close> with another owner \<open>B\<close> and
  a counter \<open>c1 < c0\<close>. Then no accumulator but that of \<open>B\<close> changes, so nothing, and
  nothing negative, is added to \<open>A\<close>; the record becomes owner \<open>B\<close> with counter \<open>c1\<close>;
  and if \<open>B\<close> has an accumulator or the table has room for one, the clock rate is
  positive and \<open>c1 * 1000\<close> fits a \<open>long long\<close>, then the accumulator of \<open>B\<close> grows by
  \<open>c1 * 1000 / hz\<close>.
\<close>

theorem C2_pid_reuse:
  assumes "slot_index de = Some p"
    and "pid_slots st p = \<lparr>active = True, uid = A, prev_jiffies = c0\<rparr>"
    and "st_uid de = B" and "B \<noteq> A"
    and "stat_jiffies de = c1" and "sint c1 < sint c0"
  shows "(\<forall>u. u \<noteq> B \<longrightarrow> cpu_of u (process_entry pw False st de) = cpu_of u st) \<and>
         cpu_of A (process_entry pw False st de) = cpu_of A st \<and>
         pid_slots (process_entry pw False st de) p =
           \<lparr>active = True, uid = B, prev_jiffies = c1\<rparr> \<and>
         ((find_index B (user_table st) \<noteq> None \<or> length (user_table st) < MAX_USERS) \<and>
          0 < sint (hz st) \<and> sint c1 \<le> JIFFIES_MAX \<longrightarrow>
            cpu_of B (process_entry pw False st de) = cpu_of B st + ll_div (c1 * 1000) (hz st) \<and>
            sint (ll_div (c1 * 1000) (hz st)) = sint c1 * 1000 div sint (hz st))"
proof -
  have new: "\<not> active (pid_slots st p) \<or> uid (pid_slots st p) \<noteq> st_uid de"
    using assms(2,3,4) by simp
  have others: "cpu_of u (process_entry pw False st de) = cpu_of u st" if "u \<noteq> B" for u
    using that assms(3) by (simp add: process_entry_cpu_of_other)
  have slot: "pid_slots (process_entry pw False st de) p =
      \<lparr>active = True, uid = B, prev_jiffies = c1\<rparr>"
    using assms(3,5) by (simp add: new_tick_step [OF assms(1) new] Let_def)
  have j: "0 \<le> sint c1"
    using slot_index_SomeD(3) [OF assms(1)] assms(5) by simp
  have charged: "cpu_of B (process_entry pw False st de) = cpu_of B st + ll_div (c1 * 1000) (hz st) \<and>
      sint (ll_div (c1 * 1000) (hz st)) = sint c1 * 1000 div sint (hz st)"
    if "(find_index B (user_table st) \<noteq> None \<or> length (user_table st) < MAX_USERS) \<and>
        0 < sint (hz st) \<and> sint c1 \<le> JIFFIES_MAX"
    using that new_tick_cpu_of [OF assms(1) new, of pw] assms(3,5) j
    by (simp add: ll_div_exact)
  show ?thesis
    using others [of A] others slot charged assms(4) by blast
qed

theorem C2_witness:
  "cpu_of 1000 (process_entry no_passwd False ex_state
      \<lparr>d_name = ''7'', stat_jiffies = 300, st_uid = 2000\<rparr>) = 40 \<and>
   pid_slots (process_entry no_passwd False ex_state
      \<lparr>d_name = ''7'', stat_jiffies = 300, st_uid = 2000\<rparr>) 7 =
     \<lparr>active = True, uid = 2000, prev_jiffies = 300\<rparr> \<and>
   cpu_of 2000 (process_entry no_passwd False ex_state
      \<lparr>d_name = ''7'', stat_jiffies = 300, st_uid = 2000\<rparr>) = 3000 \<and>
   sint (ll_div (300 * 1000) (hz ex_state)) = 3000"
proof -
  have idx: "slot_index \<lparr>d_name = ''7'', stat_jiffies = 300, st_uid = 2000\<rparr> = Some 7"
    by (simp add: slot_index_def isdigit_def PID_MAX_def)
  have slot: "pid_slots ex_state 7 = \<lparr>active = True, uid = 1000, prev_jiffies = 500\<rparr>"
    by (simp add: ex_state_def)
  have room: "length (user_table ex_state) < MAX_USERS" "0 < sint (hz ex_state)"
      "sint (300 :: llong) \<le> JIFFIES_MAX"
    by (simp_all add: ex_state_def MAX_USERS_def JIFFIES_MAX_def)
  have vals: "cpu_of 1000 ex_state = 40" "cpu_of 2000 ex_state = 0"
      "ll_div (300 * 1000) (hz ex_state) = 3000"
    by (simp_all add: cpu_of_def ex_state_def ll_div_def signed_divide_int_def)
  show ?thesis
    using C2_pid_reuse [OF idx slot, of 2000 300 no_passwd] room vals
    by simp
qed

subsection \<open>The passes of main as one run\<close>

lemma run_events_append:
  "run_events pw st (evs @ evs') = run_events pw (run_events pw st evs) evs'"
  by (simp add: run_events_def)

lemma do_sample_events:
  "do_sample pw b st listing = run_events pw st (pass_events b listing)"
proof (cases listing)
  case None
  then show ?thesis
    by (simp add: do_sample_def run_events_def pass_events_def)
next
  case (Some des)
  have "foldl (process_entry pw b) s des =
      foldl (\<lambda>s ev. process_entry pw (fst ev) s (snd ev)) s (map (Pair b) des)" for s
    by (induction des arbitrary: s) simp_all
  then show ?thesis
    using Some by (simp add: do_sample_def run_events_def pass_events_def)
qed

lemma sample_loop_events:
  "fst (sample_loop os i n sc) = run_events (getpwuid os) (fst sc) (loop_events os i n)"
proof (induction n arbitrary: i sc)
  case 0
  then show ?case by (simp add: run_events_def)
next
  case (Suc n)
  show ?case
    by (simp add: Suc sample_pass_def do_sample_events run_events_append)
qed

lemma main_report_events:
  assumes "length argv = 2" "0 < sint (atoi (argv ! 1))"
  shows "report (main os argv) =
     print_rows 1 (qsort cmp_cpu_desc (user_table
       (run_events (getpwuid os) (init_state\<lparr>hz := clock_ticks (sysconf_clk_tck os)\<rparr>)
          (pass_events True (proc os 0) @ loop_events os 0 (nat (sint (atoi (argv ! 1))))))))"
  using assms
  by (simp add: main_def Let_def sample_loop_events sample_pass_def do_sample_events
      run_events_append)

lemma attributed_append:
  "attributed pw p u st (evs @ evs') =
     attributed pw p u st evs + attributed pw p u (run_events pw st evs) evs'"
  by (induction evs arbitrary: st) (simp_all add: run_events_def Let_def)

lemma main_report_final:
  assumes "length argv = 2" "0 < sint (atoi (argv ! 1))"
  shows "report (main os argv) = print_rows 1 (qsort cmp_cpu_desc (final_table os argv))"
  using main_report_events [OF assms, of os] by (simp add: final_table_def)

text \<open>
  C7. When \<open>main\<close> accepts its argument, the report has one row for each owner whose
  accumulated time at the end of the sampling is strictly positive and no other row, the
  rows are in order of descending time, and the ranks are 1, 2, ... over the rows: an
  owner with no more than 0 ms has no row and takes no rank. The same holds of the rows
  printed for any other outcome of \<open>qsort\<close> on the final accumulators.
\<close>

theorem C7_report:
  assumes "length argv = 2" and "0 < sint (atoi (argv ! 1))"
  shows "mset (map snd (report (main os argv))) =
           image_mset (\<lambda>u. (name u, cpu_ms u))
             (filter_mset (\<lambda>u. 0 < sint (cpu_ms u)) (mset (final_table os argv))) \<and>
         sorted_wrt (\<lambda>a b. sint b \<le> sint a)
           (map (\<lambda>row. snd (snd row)) (report (main os argv))) \<and>
         map fst (report (main os argv)) = [1 ..< Suc (length (report (main os argv)))] \<and>
         (\<forall>ys. qsort_result cmp_cpu_desc (final_table os argv) ys \<longrightarrow>
            mset (map snd (print_rows 1 ys)) =
              image_mset (\<lambda>u. (name u, cpu_ms u))
                (filter_mset (\<lambda>u. 0 < sint (cpu_ms u)) (mset (final_table os argv))) \<and>
            sorted_wrt (\<lambda>a b. sint b \<le> sint a) (map (\<lambda>row. snd (snd row)) (print_rows 1 ys)) \<and>
            map fst (print_rows 1 ys) = [1 ..< Suc (length (print_rows 1 ys))])"
proof -
  have rep: "report (main os argv) = print_rows 1 (qsort cmp_cpu_desc (final_table os argv))"
    using assms by (rule main_report_final)
  have own: "qsort_result cmp_cpu_desc (final_table os argv)
      (qsort cmp_cpu_desc (final_table os argv))"
    by (rule qsort_meets_spec)
  show ?thesis
    using print_rows_of_sorted [OF own] print_rows_of_sorted [of "final_table os argv"]
    by (simp only: rep) blast
qed

lemma abc_final_table: "final_table abc_os [''./monitor.exe'', ''1''] = ex_table"
proof -
  have a: "nat (sint (atoi ''1'')) = Suc 0"
    by (simp add: atoi_def strtol_def isspace_def isdigit_def)
  show ?thesis
    by (simp add: final_table_def a pass_events_def run_events_def abc_os_def abc_passwd_def
        clock_ticks_def init_state_def process_entry_def slot_index_def isdigit_def PID_MAX_def
        clamped_delta_def ll_div_def signed_divide_int_def add_cpu_ms_def find_user_def
        MAX_USERS_def ex_table_def Let_def)
qed

theorem C7_witness:
  "final_table abc_os [''./monitor.exe'', ''1''] = ex_table \<and>
   report (main abc_os [''./monitor.exe'', ''1'']) = [(1, ''C'', 3200), (2, ''A'', 1500)] \<and>
   mset [(''C'', 3200), (''A'', 1500)] =
     image_mset (\<lambda>u. (name u, cpu_ms u)) (filter_mset (\<lambda>u. 0 < sint (cpu_ms u)) (mset ex_table)) \<and>
   sorted_wrt (\<lambda>a b. sint b \<le> sint a) [3200, 1500 :: llong] \<and>
   map fst [(1::nat, ''C'', 3200 :: llong), (2, ''A'', 1500)] = [1 ..< Suc 2]"
proof -
  have args: "length [''./monitor.exe'', ''1''] = 2"
      "0 < sint (atoi ([''./monitor.exe'', ''1''] ! 1))"
    by (simp_all add: atoi_def strtol_def isspace_def isdigit_def)
  have rep: "report (main abc_os [''./monitor.exe'', ''1'']) = [(1, ''C'', 3200), (2, ''A'', 1500)]"
    using main_report_final [OF args, of abc_os]
    by (simp only: abc_final_table print_ex_table)
  have up: "[1 ..< Suc 2] = [Suc 0, Suc (Suc 0)]"
    by (simp add: upt_conv_Cons)
  show ?thesis
    using C7_report [OF args, of abc_os] up
    by (simp only: rep abc_final_table) simp
qed

subsection \<open>Runs\<close>

lemma observations_Nil [simp]: "observations p [] = []"
  by (simp add: observations_def)

lemma observations_Cons:
  "observations p (ev # evs) =
     (if slot_index (snd ev) = Some p
      then (fst ev, st_uid (snd ev), stat_jiffies (snd ev)) # observations p evs
      else observations p evs)"
  by (simp add: observations_def)

lemma clamped_delta_same [simp]: "clamped_delta c c = 0"
  by (simp add: clamped_delta_def)

lemma known_same_counter_step:
  assumes "slot_index de = Some p"
    and "pid_slots st p = \<lparr>active = True, uid = st_uid de, prev_jiffies = stat_jiffies de\<rparr>"
  shows "process_entry pw b st de = st"
proof -
  have "(pid_slots st)(p := (pid_slots st p)\<lparr>prev_jiffies := stat_jiffies de\<rparr>) = pid_slots st"
    using assms(2) by (simp add: fun_upd_idem)
  then show ?thesis
    using assms by (simp add: process_entry_def Let_def)
qed

lemma new_baseline_step:
  assumes "slot_index de = Some p"
    and "\<not> active (pid_slots st p) \<or> uid (pid_slots st p) \<noteq> st_uid de"
  shows "process_entry pw True st de =
     st\<lparr>pid_slots := (pid_slots st)
        (p := \<lparr>active = True, uid = st_uid de, prev_jiffies = stat_jiffies de\<rparr>)\<rparr>"
  using assms by (auto simp: process_entry_def Let_def)

lemma attributed_unchanged:
  assumes "pid_slots st p = \<lparr>active = True, uid = A, prev_jiffies = c\<rparr>"
    and "observations p evs = replicate n (False, A, c)"
  shows "attributed pw p u st evs = 0"
  using assms
proof (induction evs arbitrary: st n)
  case Nil
  then show ?case by simp
next
  case (Cons ev evs)
  show ?case
  proof (cases "slot_index (snd ev) = Some p")
    case True
    with Cons.prems(2) obtain m where
      n: "n = Suc m" and ev: "st_uid (snd ev) = A" "stat_jiffies (snd ev) = c"
      and rest: "observations p evs = replicate m (False, A, c)"
      by (cases n) (auto simp: observations_Cons)
    have same: "process_entry pw (fst ev) st (snd ev) = st"
      using True Cons.prems(1) ev by (simp add: known_same_counter_step)
    show ?thesis
      using same True Cons.IH [OF Cons.prems(1) rest] by simp
  next
    case False
    then have slot: "pid_slots (process_entry pw (fst ev) st (snd ev)) p =
        \<lparr>active = True, uid = A, prev_jiffies = c\<rparr>"
      using Cons.prems(1) by (simp add: process_entry_other_slot)
    have rest: "observations p evs = replicate n (False, A, c)"
      using False Cons.prems(2) by (simp add: observations_Cons)
    show ?thesis
      using False Cons.IH [OF slot rest] by (simp add: Let_def)
  qed
qed

text \<open>
  C3. Let a run start with no record for identifier \<open>p\<close>, observe it first on the baseline
  pass with owner \<open>A\<close> and counter \<open>c0\<close>, and then on any number \<open>n\<close> of sampling ticks
  with the same owner and the same counter, among any other entries. Then the run
  attributes, on account of \<open>p\<close>, exactly 0 ms to every owner.
\<close>

theorem C3_baseline_exclusion:
  assumes "\<not> active (pid_slots st p)"
    and "observations p evs = (True, A, c0) # replicate n (False, A, c0)"
  shows "attributed pw p u st evs = 0"
  using assms
proof (induction evs arbitrary: st)
  case Nil
  then show ?case by simp
next
  case (Cons ev evs)
  show ?case
  proof (cases "slot_index (snd ev) = Some p")
    case True
    with Cons.prems(2) have ev: "fst ev" "st_uid (snd ev) = A" "stat_jiffies (snd ev) = c0"
      and rest: "observations p evs = replicate n (False, A, c0)"
      by (simp_all add: observations_Cons)
    have step: "process_entry pw (fst ev) st (snd ev) =
        st\<lparr>pid_slots := (pid_slots st)(p := \<lparr>active = True, uid = A, prev_jiffies = c0\<rparr>)\<rparr>"
      using new_baseline_step [OF True, of st pw] Cons.prems(1) ev by simp
    have "attributed pw p u (process_entry pw (fst ev) st (snd ev)) evs = 0"
      by (rule attributed_unchanged [OF _ rest]) (simp add: step)
    then show ?thesis
      using True by (simp add: Let_def step)
  next
    case False
    then have slot: "\<not> active (pid_slots (process_entry pw (fst ev) st (snd ev)) p)"
      using Cons.prems(1) by (simp add: process_entry_other_slot)
    have rest: "observations p evs = (True, A, c0) # replicate n (False, A, c0)"
      using False Cons.prems(2) by (simp add: observations_Cons)
    show ?thesis
      using False Cons.IH [OF slot rest] by (simp add: Let_def)
  qed
qed

theorem C3_witness:
  "attributed no_passwd 7 1000 (init_state\<lparr>hz := 100\<rparr>)
     [(True, \<lparr>d_name = ''7'', stat_jiffies = 500, st_uid = 1000\<rparr>),
      (False, \<lparr>d_name = ''8'', stat_jiffies = 20, st_uid = 1000\<rparr>),
      (False, \<lparr>d_name = ''7'', stat_jiffies = 500, st_uid = 1000\<rparr>),
      (False, \<lparr>d_name = ''8'', stat_jiffies = 30, st_uid = 1000\<rparr>),
      (False, \<lparr>d_name = ''7'', stat_jiffies = 500, st_uid = 1000\<rparr>)] = 0"
proof -
  have two: "replicate 2 x = [x, x]" for x :: "bool \<times> uid_t \<times> llong"
    by (simp add: numeral_2_eq_2)
  have obs: "observations 7
     [(True, \<lparr>d_name = ''7'', stat_jiffies = 500, st_uid = 1000\<rparr>),
      (False, \<lparr>d_name = ''8'', stat_jiffies = 20, st_uid = 1000\<rparr>),
      (False, \<lparr>d_name = ''7'', stat_jiffies = 500, st_uid = 1000\<rparr>),
      (False, \<lparr>d_name = ''8'', stat_jiffies = 30, st_uid = 1000\<rparr>),
      (False, \<lparr>d_name = ''7'', stat_jiffies = 500, st_uid = 1000\<rparr>)]
      = (True, 1000, 500) # replicate 2 (False, 1000, 500)"
    by (simp add: observations_def slot_index_def isdigit_def PID_MAX_def two)
  have inactive: "\<not> active (pid_slots (init_state\<lparr>hz := 100\<rparr>) 7)"
    by (simp add: init_state_def)
  show ?thesis
    using C3_baseline_exclusion [OF inactive obs] .
qed

subsection \<open>Room in the user table\<close>

lemma add_cpu_ms_uids:
  "map user_uid (user_table (add_cpu_ms pw u ms st)) =
     (if find_index u (user_table st) = None \<and> length (user_table st) < MAX_USERS
      then map user_uid (user_table st) @ [u]
      else map user_uid (user_table st))"
proof (cases "find_index u (user_table st)")
  case None
  then show ?thesis
    by (auto simp: add_cpu_ms_def find_user_def)
next
  case (Some i)
  then have "i < length (user_table st)"
    by (simp add: find_index_SomeD)
  then show ?thesis
    using Some by (simp add: add_cpu_ms_def find_user_def map_update list_update_same_conv)
qed

lemma add_cpu_ms_within:
  assumes "table_within U st" "u \<in> U"
  shows "table_within U (add_cpu_ms pw u ms st)"
proof -
  have set_eq: "user_uid ` set (user_table st') = set (map user_uid (user_table st'))" for st'
    by simp
  show ?thesis
    using assms find_index_None_iff [of u "user_table st"]
    unfolding table_within_def set_eq add_cpu_ms_uids
    by auto
qed

lemma table_within_slots [simp]: "table_within U (st\<lparr>pid_slots := f\<rparr>) = table_within U st"
  by (simp add: table_within_def)

lemma process_entry_within:
  assumes "table_within U st" "slot_index de \<noteq> None \<longrightarrow> st_uid de \<in> U"
  shows "table_within U (process_entry pw b st de)"
  using assms
  by (auto simp: process_entry_def Let_def add_cpu_ms_within split: option.splits)

lemma within_room:
  assumes "table_within U st" "card U \<le> MAX_USERS" "u \<in> U"
  shows "find_index u (user_table st) \<noteq> None \<or> length (user_table st) < MAX_USERS"
proof (cases "find_index u (user_table st)")
  case None
  then have "u \<notin> user_uid ` set (user_table st)"
    by (simp add: find_index_None_iff)
  then have "user_uid ` set (user_table st) \<subseteq> U - {u}"
    using assms(1) by (auto simp: table_within_def)
  then have "card (user_uid ` set (user_table st)) \<le> card (U - {u})"
    by (intro card_mono) simp_all
  also have "card (U - {u}) < card U"
    using assms(3) by (intro card_Diff1_less) simp_all
  finally have "card (user_uid ` set (user_table st)) < MAX_USERS"
    using assms(2) by simp
  moreover have "card (user_uid ` set (user_table st)) = length (user_table st)"
    using assms(1) distinct_card [of "map user_uid (user_table st)"]
    by (simp add: table_within_def)
  ultimately show ?thesis by simp
next
  case (Some i)
  then show ?thesis by simp
qed

lemma owners_Nil [simp]: "owners [] = {}"
  by (simp add: owners_def)

lemma owners_Cons:
  "owners (ev # evs) =
     (if slot_index (snd ev) \<noteq> None then insert (st_uid (snd ev)) (owners evs) else owners evs)"
  by (auto simp: owners_def)

subsection \<open>A later observation on a tick\<close>

lemma sint_ll_add:
  fixes a b :: llong
  assumes "0 \<le> sint a" "0 \<le> sint b" "sint a + sint b < 2 ^ 63"
  shows "sint (a + b) = sint a + sint b"
  using assms by (simp add: sint_word_ariths signed_take_bit_int_eq_self)

lemma clamped_delta_diff:
  assumes "0 \<le> sint p" "sint p \<le> sint j"
  shows "clamped_delta j p = j - p"
  using assms by (simp add: clamped_delta_def Let_def sint_ll_sub)

lemma ll_div_zero [simp]: "ll_div 0 h = 0"
  by (simp add: ll_div_def)

lemma known_tick_step:
  assumes "slot_index de = Some p"
    and "pid_slots st p = \<lparr>active = True, uid = st_uid de, prev_jiffies = c\<rparr>"
  shows "process_entry pw False st de =
     (let delta = clamped_delta (stat_jiffies de) c;
          st1 = st\<lparr>pid_slots := (pid_slots st)
                   (p := \<lparr>active = True, uid = st_uid de, prev_jiffies = stat_jiffies de\<rparr>)\<rparr>
      in if 0 < sint delta
         then add_cpu_ms pw (st_uid de) (ll_div (delta * 1000) (hz st)) st1
         else st1)"
  using assms by (simp add: process_entry_def Let_def)

lemma known_tick_cpu_of:
  assumes "slot_index de = Some p"
    and "pid_slots st p = \<lparr>active = True, uid = st_uid de, prev_jiffies = c\<rparr>"
    and "0 \<le> sint c" and "sint c \<le> sint (stat_jiffies de)"
    and "find_index (st_uid de) (user_table st) \<noteq> None \<or> length (user_table st) < MAX_USERS"
  shows "cpu_of (st_uid de) (process_entry pw False st de) =
         cpu_of (st_uid de) st + ll_div ((stat_jiffies de - c) * 1000) (hz st)"
proof -
  let ?d = "stat_jiffies de - c"
  have delta: "clamped_delta (stat_jiffies de) c = ?d"
    using assms(3,4) by (rule clamped_delta_diff)
  have d: "0 \<le> sint ?d"
    using assms(3,4) by (simp add: sint_ll_sub)
  show ?thesis
  proof (cases "0 < sint ?d")
    case True
    then show ?thesis
      using assms(5)
      by (simp add: known_tick_step [OF assms(1,2)] Let_def delta cpu_of_add_same)
  next
    case False
    with d have "sint ?d = 0" by simp
    then have z: "?d = 0" by (simp only: sint_zero_iff)
    show ?thesis
      using False by (simp add: known_tick_step [OF assms(1,2)] Let_def delta z)
  qed
qed

lemma known_tick_slot:
  assumes "slot_index de = Some p"
    and "pid_slots st p = \<lparr>active = True, uid = st_uid de, prev_jiffies = c\<rparr>"
  shows "pid_slots (process_entry pw False st de) p =
         \<lparr>active = True, uid = st_uid de, prev_jiffies = stat_jiffies de\<rparr>"
  by (simp add: known_tick_step [OF assms] Let_def)

subsection \<open>Sums of per-tick conversions\<close>

lemma div_add_le_int:
  fixes x y h :: int
  assumes "0 < h"
  shows "x div h + y div h \<le> (x + y) div h"
proof -
  have "(x div h + y div h) * h \<le> x + y"
  proof -
    have "x div h * h + x mod h = x" "y div h * h + y mod h = y"
      by simp_all
    moreover have "0 \<le> x mod h" "0 \<le> y mod h"
      using assms by simp_all
    ultimately have "x div h * h \<le> x" "y div h * h \<le> y"
      by linarith+
    then show ?thesis by (simp add: distrib_right)
  qed
  then have "((x div h + y div h) * h) div h \<le> (x + y) div h"
    by (rule zdiv_mono1) (rule assms)
  then show ?thesis using assms by simp
qed

lemma ll_div_diff:
  assumes "0 \<le> sint c" "sint c \<le> sint c'" "sint c' \<le> JIFFIES_MAX" "0 < sint h"
  shows "sint (ll_div ((c' - c) * 1000) h) = (sint c' - sint c) * 1000 div sint h"
proof -
  have d: "sint (c' - c) = sint c' - sint c"
    using assms(1,2) by (simp add: sint_ll_sub)
  have "sint (ll_div ((c' - c) * 1000) h) = sint (c' - c) * 1000 div sint h"
    by (rule ll_div_exact) (use assms d in simp_all)
  with d show ?thesis by simp
qed

lemma per_tick_sum_bounds:
  assumes "0 < sint h" "0 \<le> sint c" "sorted (map sint (c # cs))"
    and "sint (last (c # cs)) \<le> JIFFIES_MAX"
  shows "0 \<le> sint (per_tick_sum h c cs) \<and>
         sint (per_tick_sum h c cs) \<le> (sint (last (c # cs)) - sint c) * 1000 div sint h \<and>
         (sint h dvd 1000 \<longrightarrow>
            sint (per_tick_sum h c cs) = (sint (last (c # cs)) - sint c) * 1000 div sint h)"
  using assms(2-)
proof (induction cs arbitrary: c)
  case Nil
  then show ?case by simp
next
  case (Cons c' cs)
  let ?L = "sint (last (c' # cs))"
  let ?D = "ll_div ((c' - c) * 1000) h"
  let ?S = "per_tick_sum h c' cs"
  have le: "sint c \<le> sint c'" and srt: "sorted (map sint (c' # cs))"
    using Cons.prems(2) by simp_all
  have c': "0 \<le> sint c'"
    using Cons.prems(1) le by simp
  have last: "?L \<le> JIFFIES_MAX"
    using Cons.prems(3) by simp
  have c'L: "sint c' \<le> ?L"
  proof (cases cs)
    case Nil
    then show ?thesis by simp
  next
    case (Cons a list)
    have "last (c' # cs) \<in> set cs"
      using Cons by simp
    then show ?thesis
      using srt by auto
  qed
  have IH: "0 \<le> sint ?S" "sint ?S \<le> (?L - sint c') * 1000 div sint h"
      "sint h dvd 1000 \<longrightarrow> sint ?S = (?L - sint c') * 1000 div sint h"
    using Cons.IH [OF c' srt last] by simp_all
  have D: "sint ?D = (sint c' - sint c) * 1000 div sint h"
    using Cons.prems(1) le c'L last assms(1) by (intro ll_div_diff) simp_all
  have D0: "0 \<le> sint ?D"
  proof -
    have "0 \<le> (sint c' - sint c) * 1000 div sint h"
      using le assms(1) by (simp add: pos_imp_zdiv_nonneg_iff)
    then show ?thesis by (simp only: D)
  qed
  have split: "(sint c' - sint c) * 1000 + (?L - sint c') * 1000 = (?L - sint c) * 1000"
    by (simp add: algebra_simps)
  have sum_le: "sint ?D + sint ?S \<le> (?L - sint c) * 1000 div sint h"
  proof -
    have "sint ?D + sint ?S \<le>
        (sint c' - sint c) * 1000 div sint h + (?L - sint c') * 1000 div sint h"
      using D IH(2) by simp
    also have "\<dots> \<le> ((sint c' - sint c) * 1000 + (?L - sint c') * 1000) div sint h"
      using assms(1) by (rule div_add_le_int)
    finally show ?thesis by (simp only: split)
  qed
  have "(?L - sint c) * 1000 div sint h \<le> (?L - sint c) * 1000"
    using assms(1) le c'L int_div_le_self [of "(?L - sint c) * 1000" "sint h"]
    by (cases "?L - sint c = 0") simp_all
  also have "\<dots> < 2 ^ 63"
    using last Cons.prems(1) by (simp add: JIFFIES_MAX_def)
  finally have range: "sint ?D + sint ?S < 2 ^ 63"
    using sum_le by simp
  have sum: "sint (?D + ?S) = sint ?D + sint ?S"
    using D0 IH(1) range by (rule sint_ll_add)
  have exact: "sint ?D + sint ?S = (?L - sint c) * 1000 div sint h" if dvd: "sint h dvd 1000"
  proof -
    have "sint h dvd (sint c' - sint c) * 1000" "sint h dvd (?L - sint c') * 1000"
      using dvd by simp_all
    then have "((sint c' - sint c) * 1000 + (?L - sint c') * 1000) div sint h =
        (sint c' - sint c) * 1000 div sint h + (?L - sint c') * 1000 div sint h"
      by (rule div_add)
    then have "(?L - sint c) * 1000 div sint h =
        (sint c' - sint c) * 1000 div sint h + (?L - sint c') * 1000 div sint h"
      by (simp only: split)
    moreover have "sint ?S = (?L - sint c') * 1000 div sint h"
      using IH(3) dvd by simp
    ultimately show ?thesis
      using D by simp
  qed
  show ?case
    using sum D0 IH(1) sum_le exact by simp
qed

subsection \<open>What a run attributes on account of one process\<close>

lemma attributed_after_baseline:
  assumes "pid_slots st p = \<lparr>active = True, uid = A, prev_jiffies = c\<rparr>"
    and "0 \<le> sint c"
    and "observations p evs = map (\<lambda>c. (False, A, c)) cs"
    and "sorted (map sint (c # cs))"
    and "table_within U st" and "owners evs \<subseteq> U" and "card U \<le> MAX_USERS"
  shows "attributed pw p A st evs = per_tick_sum (hz st) c cs"
  using assms(1-6)
proof (induction evs arbitrary: st c cs)
  case Nil
  then show ?case by simp
next
  case (Cons ev evs)
  let ?st' = "process_entry pw (fst ev) st (snd ev)"
  have own: "slot_index (snd ev) \<noteq> None \<longrightarrow> st_uid (snd ev) \<in> U" and rest_own: "owners evs \<subseteq> U"
    using Cons.prems(6) by (auto simp: owners_Cons split: if_splits)
  have within: "table_within U ?st'"
    using Cons.prems(5) own by (rule process_entry_within)
  show ?case
  proof (cases "slot_index (snd ev) = Some p")
    case True
    with Cons.prems(3) obtain c' cs' where
      cs: "cs = c' # cs'" and ev: "\<not> fst ev" "st_uid (snd ev) = A" "stat_jiffies (snd ev) = c'"
      and rest: "observations p evs = map (\<lambda>c. (False, A, c)) cs'"
      by (cases cs) (auto simp: observations_Cons)
    have le: "sint c \<le> sint c'" and srt: "sorted (map sint (c' # cs'))"
      using Cons.prems(4) cs by simp_all
    have c': "0 \<le> sint c'"
      using Cons.prems(2) le by simp
    have slot: "pid_slots st p = \<lparr>active = True, uid = st_uid (snd ev), prev_jiffies = c\<rparr>"
      using Cons.prems(1) ev by simp
    have "A \<in> U"
      using own True ev by simp
    then have room: "find_index (st_uid (snd ev)) (user_table st) \<noteq> None \<or>
        length (user_table st) < MAX_USERS"
      using within_room [OF Cons.prems(5) assms(7)] ev by simp
    have charge: "cpu_of A (process_entry pw False st (snd ev)) =
        cpu_of A st + ll_div ((c' - c) * 1000) (hz st)"
      using known_tick_cpu_of [OF True slot Cons.prems(2) _ room, of pw] le ev by simp
    have slot': "pid_slots (process_entry pw False st (snd ev)) p =
        \<lparr>active = True, uid = A, prev_jiffies = c'\<rparr>"
      using known_tick_slot [OF True slot, of pw] ev by simp
    have flag: "fst ev = False"
      using ev(1) by simp
    have IH: "attributed pw p A (process_entry pw False st (snd ev)) evs =
        per_tick_sum (hz (process_entry pw False st (snd ev))) c' cs'"
      using within by (intro Cons.IH [OF slot' c' rest srt _ rest_own]) (simp add: flag)
    show ?thesis
      using True by (simp add: Let_def flag charge IH cs)
  next
    case False
    have slot': "pid_slots ?st' p = \<lparr>active = True, uid = A, prev_jiffies = c\<rparr>"
      using False Cons.prems(1) by (simp add: process_entry_other_slot)
    have rest: "observations p evs = map (\<lambda>c. (False, A, c)) cs"
      using False Cons.prems(3) by (simp add: observations_Cons)
    show ?thesis
      using False Cons.IH [OF slot' Cons.prems(2) rest Cons.prems(4) within rest_own]
      by (simp add: Let_def)
  qed
qed

lemma attributed_from_baseline:
  assumes "\<not> active (pid_slots st p)"
    and "observations p evs = (True, A, c0) # map (\<lambda>c. (False, A, c)) cs"
    and "sorted (map sint (c0 # cs))"
    and "table_within U st" and "owners evs \<subseteq> U" and "card U \<le> MAX_USERS"
  shows "attributed pw p A st evs = per_tick_sum (hz st) c0 cs \<and> 0 \<le> sint c0"
  using assms(1,2,4,5)
proof (induction evs arbitrary: st)
  case Nil
  then show ?case by simp
next
  case (Cons ev evs)
  let ?st' = "process_entry pw (fst ev) st (snd ev)"
  have own: "slot_index (snd ev) \<noteq> None \<longrightarrow> st_uid (snd ev) \<in> U" and rest_own: "owners evs \<subseteq> U"
    using Cons.prems(4) by (auto simp: owners_Cons split: if_splits)
  have within: "table_within U ?st'"
    using Cons.prems(3) own by (rule process_entry_within)
  show ?case
  proof (cases "slot_index (snd ev) = Some p")
    case True
    with Cons.prems(2) have ev: "fst ev" "st_uid (snd ev) = A" "stat_jiffies (snd ev) = c0"
      and rest: "observations p evs = map (\<lambda>c. (False, A, c)) cs"
      by (simp_all add: observations_Cons)
    have c0: "0 \<le> sint c0"
      using slot_index_SomeD(3) [OF True] ev by simp
    have step: "?st' =
        st\<lparr>pid_slots := (pid_slots st)(p := \<lparr>active = True, uid = A, prev_jiffies = c0\<rparr>)\<rparr>"
      using new_baseline_step [OF True, of st pw] Cons.prems(1) ev by simp
    have slot': "pid_slots ?st' p = \<lparr>active = True, uid = A, prev_jiffies = c0\<rparr>"
      by (simp add: step)
    have "attributed pw p A ?st' evs = per_tick_sum (hz ?st') c0 cs"
      using slot' c0 rest assms(3) within rest_own assms(6)
      by (rule attributed_after_baseline)
    then show ?thesis
      using True c0 by (simp add: Let_def step)
  next
    case False
    have slot': "\<not> active (pid_slots ?st' p)"
      using False Cons.prems(1) by (simp add: process_entry_other_slot)
    have rest: "observations p evs = (True, A, c0) # map (\<lambda>c. (False, A, c)) cs"
      using False Cons.prems(2) by (simp add: observations_Cons)
    show ?thesis
      using False Cons.IH [OF slot' rest within rest_own] by (simp add: Let_def)
  qed
qed

text \<open>
  C1 as stated fails in four cases. At 3 ticks per second a process that is seen with the
  counters 0, 1, 2 and 3 is charged 333 ms on each tick, 999 ms in all, and not
  \<open>3 * 1000 / 3 = 1000\<close>. When the user table is full, a new owner is charged
  nothing. A delta whose product with 1000 is no \<open>long long\<close> is charged as the
  negative number to which the product wraps around. And a process with the identifier
  70000 is skipped by line 188 on every pass: its owner is charged nothing, and not
  \<open>100 * 1000 / 100 = 1000\<close>.
\<close>

theorem C1_counterexample:
  "sint (attributed ex_passwd 7 1000 (init_state\<lparr>hz := 3\<rparr>)
     [(True, \<lparr>d_name = ''7'', stat_jiffies = 0, st_uid = 1000\<rparr>),
      (False, \<lparr>d_name = ''7'', stat_jiffies = 1, st_uid = 1000\<rparr>),
      (False, \<lparr>d_name = ''7'', stat_jiffies = 2, st_uid = 1000\<rparr>),
      (False, \<lparr>d_name = ''7'', stat_jiffies = 3, st_uid = 1000\<rparr>)]) = 999 \<and>
   (sint (3 :: llong) - sint (0 :: llong)) * 1000 div sint (3 :: llong) = 1000 \<and>
   sint (attributed no_passwd 8 5000 full_state
     [(True, \<lparr>d_name = ''8'', stat_jiffies = 500, st_uid = 5000\<rparr>),
      (False, \<lparr>d_name = ''8'', stat_jiffies = 560, st_uid = 5000\<rparr>)]) = 0 \<and>
   (sint (560 :: llong) - sint (500 :: llong)) * 1000 div sint (hz full_state) = 600 \<and>
   sint (attributed ex_passwd 7 1000 (init_state\<lparr>hz := 100\<rparr>)
     [(True, \<lparr>d_name = ''7'', stat_jiffies = 0, st_uid = 1000\<rparr>),
      (False, \<lparr>d_name = ''7'', stat_jiffies = 9223372036854776, st_uid = 1000\<rparr>)])
     = - 92233720368547756 \<and>
   (sint (9223372036854776 :: llong) - sint (0 :: llong)) * 1000 div sint (100 :: llong)
     = 92233720368547760 \<and>
   sint (attributed ex_passwd 70000 1000 (init_state\<lparr>hz := 100\<rparr>)
     [(True, \<lparr>d_name = ''70000'', stat_jiffies = 0, st_uid = 1000\<rparr>),
      (False, \<lparr>d_name = ''70000'', stat_jiffies = 100, st_uid = 1000\<rparr>)]) = 0 \<and>
   user_table (run_events ex_passwd (init_state\<lparr>hz := 100\<rparr>)
     [(True, \<lparr>d_name = ''70000'', stat_jiffies = 0, st_uid = 1000\<rparr>),
      (False, \<lparr>d_name = ''70000'', stat_jiffies = 100, st_uid = 1000\<rparr>)]) = [] \<and>
   (sint (100 :: llong) - sint (0 :: llong)) * 1000 div sint (100 :: llong) = 1000"
proof -
  have rounding: "sint (attributed ex_passwd 7 1000 (init_state\<lparr>hz := 3\<rparr>)
     [(True, \<lparr>d_name = ''7'', stat_jiffies = 0, st_uid = 1000\<rparr>),
      (False, \<lparr>d_name = ''7'', stat_jiffies = 1, st_uid = 1000\<rparr>),
      (False, \<lparr>d_name = ''7'', stat_jiffies = 2, st_uid = 1000\<rparr>),
      (False, \<lparr>d_name = ''7'', stat_jiffies = 3, st_uid = 1000\<rparr>)]) = 999"
    by (simp add: process_entry_def slot_index_def isdigit_def PID_MAX_def init_state_def
        clamped_delta_def ll_div_def signed_divide_int_def add_cpu_ms_def find_user_def
        MAX_USERS_def cpu_of_def Let_def)
  have idx: "slot_index \<lparr>d_name = ''8'', stat_jiffies = 500, st_uid = 5000\<rparr> = Some 8"
      "slot_index \<lparr>d_name = ''8'', stat_jiffies = 560, st_uid = 5000\<rparr> = Some 8"
    by (simp_all add: slot_index_def isdigit_def PID_MAX_def)
  have inactive: "\<not> active (pid_slots full_state 8) \<or> uid (pid_slots full_state 8) \<noteq>
      st_uid \<lparr>d_name = ''8'', stat_jiffies = 500, st_uid = 5000\<rparr>"
    by (simp add: full_state_def)
  let ?st1 = "full_state\<lparr>pid_slots := (pid_slots full_state)
      (8 := \<lparr>active = True, uid = 5000, prev_jiffies = 500\<rparr>)\<rparr>"
  have step1: "process_entry no_passwd True full_state
      \<lparr>d_name = ''8'', stat_jiffies = 500, st_uid = 5000\<rparr> = ?st1"
    by (simp add: new_baseline_step [OF idx(1) inactive])
  have full1: "add_cpu_ms pw 5000 ms (full_state\<lparr>pid_slots := f\<rparr>) = full_state\<lparr>pid_slots := f\<rparr>"
    for pw ms f
    by (rule add_cpu_ms_full) (simp_all add: full_state_def find_index_full_5000 full_table_length)
  have step2: "cpu_of 5000 (process_entry no_passwd False ?st1
      \<lparr>d_name = ''8'', stat_jiffies = 560, st_uid = 5000\<rparr>) = 0"
    by (simp add: process_entry_def idx Let_def full1 cpu_of_full_state)
  have full: "sint (attributed no_passwd 8 5000 full_state
     [(True, \<lparr>d_name = ''8'', stat_jiffies = 500, st_uid = 5000\<rparr>),
      (False, \<lparr>d_name = ''8'', stat_jiffies = 560, st_uid = 5000\<rparr>)]) = 0"
    by (simp add: idx Let_def step1 step2 cpu_of_full_state)
  have wrap: "sint (attributed ex_passwd 7 1000 (init_state\<lparr>hz := 100\<rparr>)
     [(True, \<lparr>d_name = ''7'', stat_jiffies = 0, st_uid = 1000\<rparr>),
      (False, \<lparr>d_name = ''7'', stat_jiffies = 9223372036854776, st_uid = 1000\<rparr>)])
     = - 92233720368547756"
    by (simp add: process_entry_def slot_index_def isdigit_def PID_MAX_def init_state_def
        clamped_delta_def ll_div_def signed_divide_int_def add_cpu_ms_def find_user_def
        MAX_USERS_def cpu_of_def Let_def)
  have skip: "slot_index \<lparr>d_name = ''70000'', stat_jiffies = 0, st_uid = 1000\<rparr> = None"
      "slot_index \<lparr>d_name = ''70000'', stat_jiffies = 100, st_uid = 1000\<rparr> = None"
    by (simp_all add: slot_index_def isdigit_def PID_MAX_def)
  have skipped: "sint (attributed ex_passwd 70000 1000 (init_state\<lparr>hz := 100\<rparr>)
     [(True, \<lparr>d_name = ''70000'', stat_jiffies = 0, st_uid = 1000\<rparr>),
      (False, \<lparr>d_name = ''70000'', stat_jiffies = 100, st_uid = 1000\<rparr>)]) = 0 \<and>
   user_table (run_events ex_passwd (init_state\<lparr>hz := 100\<rparr>)
     [(True, \<lparr>d_name = ''70000'', stat_jiffies = 0, st_uid = 1000\<rparr>),
      (False, \<lparr>d_name = ''70000'', stat_jiffies = 100, st_uid = 1000\<rparr>)]) = []"
    by (simp add: run_events_def process_entry_skip skip Let_def init_state_def)
  have hz: "hz full_state = 100"
    by (simp add: full_state_def)
  show ?thesis
    using rounding full wrap skipped by (simp add: hz)
qed

text \<open>
  C1, amended. Let \<open>p\<close> be an identifier from 1 to 65535; lines 188-197 let no entry
  with another identifier, or one whose counter or owner cannot be read, reach a record.
  Let a run start with no record for \<open>p\<close>, observe it first on the baseline pass with
  owner \<open>A\<close> and counter \<open>c0\<close>, and then on sampling ticks with the same owner and the
  counters \<open>c1 \<le> ... \<le> cN\<close>, among any other entries; let the run observe at most
  \<open>MAX_USERS\<close> owners, the clock rate be positive and \<open>cN * 1000\<close> fit a
  \<open>long long\<close>. Then what the run attributes to \<open>A\<close> on account of \<open>p\<close> is the sum of
  the per-tick conversions \<open>(ci - c(i-1)) * 1000 / hz\<close>. That sum is at most the single
  conversion \<open>(cN - c0) * 1000 / hz\<close>, and it is equal to it when the clock rate divides
  1000.
\<close>

theorem C1_no_double_count:
  assumes "\<not> active (pid_slots st p)"
    and "observations p evs = (True, A, c0) # map (\<lambda>c. (False, A, c)) cs"
    and "sorted (map sint (c0 # cs))"
    and "sint (last (c0 # cs)) \<le> JIFFIES_MAX"
    and "0 < sint (hz st)"
    and "distinct (map user_uid (user_table st))"
    and "card (user_uid ` set (user_table st) \<union> owners evs) \<le> MAX_USERS"
    and "1 \<le> p" and "p \<le> 65535"
  shows "attributed pw p A st evs = per_tick_sum (hz st) c0 cs \<and>
         sint (attributed pw p A st evs) \<le>
           (sint (last (c0 # cs)) - sint c0) * 1000 div sint (hz st) \<and>
         (sint (hz st) dvd 1000 \<longrightarrow>
            sint (attributed pw p A st evs) =
              (sint (last (c0 # cs)) - sint c0) * 1000 div sint (hz st))"
proof -
  let ?U = "user_uid ` set (user_table st) \<union> owners evs"
  have within: "table_within ?U st"
    using assms(6) by (simp add: table_within_def)
  have eq: "attributed pw p A st evs = per_tick_sum (hz st) c0 cs" and c0: "0 \<le> sint c0"
    using attributed_from_baseline [OF assms(1,2,3) within _ assms(7), of pw] by simp_all
  show ?thesis
    using per_tick_sum_bounds [OF assms(5) c0 assms(3,4)] eq by simp
qed

theorem C1_witness:
  "attributed ex_passwd 7 1000 (init_state\<lparr>hz := 100\<rparr>)
     [(True, \<lparr>d_name = ''7'', stat_jiffies = 500, st_uid = 1000\<rparr>),
      (False, \<lparr>d_name = ''8'', stat_jiffies = 20, st_uid = 1000\<rparr>),
      (False, \<lparr>d_name = ''7'', stat_jiffies = 520, st_uid = 1000\<rparr>),
      (False, \<lparr>d_name = ''7'', stat_jiffies = 560, st_uid = 1000\<rparr>)]
     = per_tick_sum 100 500 [520, 560] \<and>
   sint (attributed ex_passwd 7 1000 (init_state\<lparr>hz := 100\<rparr>)
     [(True, \<lparr>d_name = ''7'', stat_jiffies = 500, st_uid = 1000\<rparr>),
      (False, \<lparr>d_name = ''8'', stat_jiffies = 20, st_uid = 1000\<rparr>),
      (False, \<lparr>d_name = ''7'', stat_jiffies = 520, st_uid = 1000\<rparr>),
      (False, \<lparr>d_name = ''7'', stat_jiffies = 560, st_uid = 1000\<rparr>)]) = 600"
proof -
  let ?evs = "[(True, \<lparr>d_name = ''7'', stat_jiffies = 500, st_uid = 1000\<rparr>),
      (False, \<lparr>d_name = ''8'', stat_jiffies = 20, st_uid = 1000\<rparr>),
      (False, \<lparr>d_name = ''7'', stat_jiffies = 520, st_uid = 1000\<rparr>),
      (False, \<lparr>d_name = ''7'', stat_jiffies = 560, st_uid = 1000\<rparr>)]"
  have obs: "observations 7 ?evs = (True, 1000, 500) # map (\<lambda>c. (False, 1000, c)) [520, 560]"
    by (simp add: observations_def slot_index_def isdigit_def PID_MAX_def)
  have own: "owners ?evs = {1000}"
    by (simp add: owners_Cons slot_index_def isdigit_def PID_MAX_def)
  have h: "\<not> active (pid_slots (init_state\<lparr>hz := 100\<rparr>) 7)"
      "sorted (map sint (500 # [520, 560 :: llong]))"
      "sint (last (500 # [520, 560 :: llong])) \<le> JIFFIES_MAX"
      "0 < sint (hz (init_state\<lparr>hz := 100\<rparr>))"
      "distinct (map user_uid (user_table (init_state\<lparr>hz := 100\<rparr>)))"
      "card (user_uid ` set (user_table (init_state\<lparr>hz := 100\<rparr>)) \<union> owners ?evs) \<le> MAX_USERS"
    by (simp_all add: init_state_def JIFFIES_MAX_def own MAX_USERS_def)
  have hz: "hz (init_state\<lparr>hz := 100\<rparr>) = 100"
    by simp
  have d: "sint (100 :: llong) dvd 1000"
    by simp
  have v: "(sint (last (500 # [520, 560 :: llong])) - sint (500 :: llong)) * 1000
      div sint (100 :: llong) = 600"
    by simp
  have pid: "(1 :: int) \<le> 7" "(7 :: int) \<le> 65535"
    by simp_all
  note C = C1_no_double_count [OF h(1) obs h(2-6) pid, of ex_passwd, unfolded hz v]
  from C d show ?thesis
    by blast
qed

subsection \<open>Accumulators within a pass\<close>












lemma clock_ticks_pos: "0 < sint (clock_ticks tck)"
  by (simp add: clock_ticks_def)






end
